theory Spec2Isabelle
  imports Main
begin

section \<open>Data model\<close>

text \<open>
  The notebook's \<^verbatim>\<open>class QueueImportance(Enum)\<close> with members PURE = 1, UNIT = 2,
  REST = 3. It is a plain \<^verbatim>\<open>Enum\<close>: members compare equal only to themselves and
  define no ordering.
\<close>

datatype QueueImportance = PURE | UNIT | REST

text \<open>\<^verbatim>\<open>class Literal\<close>: a name and a sign (\<^verbatim>\<open>True\<close> for a positive literal).\<close>

datatype Literal = Literal (name: string) (sign: bool)

text \<open>\<^verbatim>\<open>Literal.__neg__\<close>: the same name with the opposite sign.\<close>

definition neg :: "Literal \<Rightarrow> Literal" where
  "neg l = Literal (name l) (\<not> sign l)"

text \<open>\<^verbatim>\<open>Literal.__eq__\<close> (and \<^verbatim>\<open>__hash__\<close>): only the names are compared.\<close>

definition Literal_eq :: "Literal \<Rightarrow> Literal \<Rightarrow> bool" where
  "Literal_eq self other = (name self = name other)"

text \<open>
  Python's \<^verbatim>\<open><\<close> on \<^verbatim>\<open>str\<close>: lexicographic on the code points, a proper prefix
  being smaller.
\<close>

fun str_lt :: "string \<Rightarrow> string \<Rightarrow> bool" where
  "str_lt [] [] = False"
| "str_lt [] (y # ys) = True"
| "str_lt (x # xs) [] = False"
| "str_lt (x # xs) (y # ys) =
     (if x = y then str_lt xs ys else (of_char x :: nat) < of_char y)"

text \<open>\<^verbatim>\<open>Literal.__lt__\<close>: \<^verbatim>\<open>str(self.name) < str(other.name)\<close>.\<close>

definition Literal_lt :: "Literal \<Rightarrow> Literal \<Rightarrow> bool" where
  "Literal_lt self other = str_lt (name self) (name other)"

text \<open>
  The values stored in the model: Python's \<^verbatim>\<open>True\<close>, \<^verbatim>\<open>False\<close> and the string
  \<^verbatim>\<open>"Free"\<close>.
\<close>

datatype TruthState = TTrue | TFalse | Free

text \<open>The exceptions the modelled operations can raise.\<close>

datatype error = TypeError | IndexError | KeyError

type_synonym 'a result = "error + 'a"

text \<open>
  A clause is the sequence of literals that iterating over it yields. A list clause is
  that list; a clause written as a Python set display goes through \<open>pyset\<close> below,
  which keeps the literals in the order they were added (the order in which a set is
  iterated is not fixed by the language; \<open>clauseSatisfied_order\<close> below shows that
  the evaluation of a clause does not depend on it).
\<close>

type_synonym clause = "Literal list"

subsection \<open>Sets and dictionaries keyed by literals\<close>

text \<open>
  Membership in a set (or among the keys of a dictionary) of literals uses
  \<^verbatim>\<open>__hash__\<close> and \<^verbatim>\<open>__eq__\<close>, so it looks at names only.
\<close>

fun set_member :: "Literal \<Rightarrow> Literal list \<Rightarrow> bool" where
  "set_member l [] = False"
| "set_member l (x # xs) = (if Literal_eq x l then True else set_member l xs)"

text \<open>\<^verbatim>\<open>set.add\<close>: an element equal to one already present is not stored.\<close>

definition set_add :: "Literal list \<Rightarrow> Literal \<Rightarrow> Literal list" where
  "set_add s l = (if set_member l s then s else s @ [l])"

text \<open>A set display \<^verbatim>\<open>{l1, ..., ln}\<close>: the elements are added from left to right.\<close>

definition pyset :: "Literal list \<Rightarrow> clause" where
  "pyset ls = foldl set_add [] ls"

text \<open>
  \<^verbatim>\<open>s.union(t)\<close> builds and returns a new set; \<^verbatim>\<open>s\<close> itself is left as it is.
\<close>

definition set_union :: "Literal list \<Rightarrow> Literal list \<Rightarrow> Literal list" where
  "set_union s t = foldl set_add s t"

text \<open>
  A dictionary keyed by literals, in insertion order. Assigning to a key that is already
  present (up to \<^verbatim>\<open>__eq__\<close>) keeps the stored key object and replaces the value.
\<close>

type_synonym 'v dict = "(Literal \<times> 'v) list"

fun dict_get :: "'v dict \<Rightarrow> Literal \<Rightarrow> 'v option" where
  "dict_get [] k = None"
| "dict_get ((k', v) # d) k = (if Literal_eq k' k then Some v else dict_get d k)"

fun dict_set :: "'v dict \<Rightarrow> Literal \<Rightarrow> 'v \<Rightarrow> 'v dict" where
  "dict_set [] k v = [(k, v)]"
| "dict_set ((k', v') # d) k v =
     (if Literal_eq k' k then (k', v) # d else (k', v') # dict_set d k v)"

text \<open>The names of the keys of a dictionary, in order.\<close>

fun dict_names :: "'v dict \<Rightarrow> string list" where
  "dict_names [] = []"
| "dict_names ((k, v) # d) = name k # dict_names d"

type_synonym model = "TruthState dict"

section \<open>clauseSatisfied\<close>

text \<open>
  The result is Python's \<^verbatim>\<open>True\<close> (\<open>Some True\<close>), \<^verbatim>\<open>False\<close> (\<open>Some False\<close>) or
  \<^verbatim>\<open>None\<close> (\<open>None\<close>): satisfied, falsified, pending. The loop carries the flag
  \<^verbatim>\<open>clause_has_free\<close>.
\<close>

fun clauseSatisfied_loop :: "clause \<Rightarrow> model \<Rightarrow> bool \<Rightarrow> bool option" where
  "clauseSatisfied_loop [] model clause_has_free =
     (if clause_has_free then None else Some False)"
| "clauseSatisfied_loop (literal # rest) model clause_has_free =
     (case dict_get model literal of
        None \<Rightarrow> clauseSatisfied_loop rest model clause_has_free
      | Some tested_literal \<Rightarrow>
          if tested_literal = Free then clauseSatisfied_loop rest model True
          else if sign literal then
            (if tested_literal = TTrue then Some True
             else clauseSatisfied_loop rest model clause_has_free)
          else
            (if tested_literal = TFalse then Some True
             else clauseSatisfied_loop rest model clause_has_free))"

definition clauseSatisfied :: "clause \<Rightarrow> model \<Rightarrow> bool option" where
  "clauseSatisfied clause model = clauseSatisfied_loop clause model False"

section \<open>The priority queue\<close>

text \<open>
  A queue entry is the tuple \<^verbatim>\<open>((importance, -cnt), literal)\<close>. Comparing two tuples
  with \<^verbatim>\<open><\<close> finds the first position where they differ under \<^verbatim>\<open>==\<close> and compares
  there; tuples that are equal throughout are not smaller. Two different members of
  \<^verbatim>\<open>QueueImportance\<close> have no \<^verbatim>\<open><\<close>: the comparison raises \<^verbatim>\<open>TypeError\<close>.
\<close>

type_synonym entry = "(QueueImportance \<times> int) \<times> Literal"

definition QueueImportance_lt :: "QueueImportance \<Rightarrow> QueueImportance \<Rightarrow> bool result" where
  "QueueImportance_lt a b = Inl TypeError"

definition key_lt :: "QueueImportance \<times> int \<Rightarrow> QueueImportance \<times> int \<Rightarrow> bool result" where
  "key_lt a b =
     (if fst a \<noteq> fst b then QueueImportance_lt (fst a) (fst b)
      else if snd a \<noteq> snd b then Inr (snd a < snd b)
      else Inr False)"

definition entry_lt :: "entry \<Rightarrow> entry \<Rightarrow> bool result" where
  "entry_lt a b =
     (if fst a \<noteq> fst b then key_lt (fst a) (fst b)
      else if \<not> Literal_eq (snd a) (snd b) then Inr (Literal_lt (snd a) (snd b))
      else Inr False)"

text \<open>
  \<^verbatim>\<open>heapq._siftdown(heap, startpos, pos)\<close>: the loop moves parents down until the
  new item fits. \<open>newitem\<close> is \<^verbatim>\<open>heap[pos]\<close> read before the loop.
\<close>

function siftdown_loop :: "entry list \<Rightarrow> nat \<Rightarrow> entry \<Rightarrow> nat \<Rightarrow> entry list result" where
  "siftdown_loop heap startpos newitem pos =
     (if pos > startpos then
        (let parentpos = (pos - 1) div 2;
             parent = heap ! parentpos
         in case entry_lt newitem parent of
              Inl e \<Rightarrow> Inl e
            | Inr True \<Rightarrow> siftdown_loop (heap[pos := parent]) startpos newitem parentpos
            | Inr False \<Rightarrow> Inr (heap[pos := newitem]))
      else Inr (heap[pos := newitem]))"
  by pat_completeness auto
termination
  by (relation "measure (\<lambda>(heap, startpos, newitem, pos). pos)") auto

definition siftdown :: "entry list \<Rightarrow> nat \<Rightarrow> nat \<Rightarrow> entry list result" where
  "siftdown heap startpos pos = siftdown_loop heap startpos (heap ! pos) pos"

text \<open>
  \<^verbatim>\<open>heapq._siftup(heap, pos)\<close>: the loop bubbles the smaller child up until a leaf is
  reached, then the item is put there and sifted down from the leaf.
\<close>

function siftup_loop :: "entry list \<Rightarrow> nat \<Rightarrow> nat \<Rightarrow> (entry list \<times> nat) result" where
  "siftup_loop heap endpos pos =
     (let childpos = 2 * pos + 1 in
      if childpos < endpos then
        (let rightpos = childpos + 1 in
         case (if rightpos < endpos then
                 (case entry_lt (heap ! childpos) (heap ! rightpos) of
                    Inl e \<Rightarrow> Inl e
                  | Inr b \<Rightarrow> Inr (if \<not> b then rightpos else childpos))
               else Inr childpos) of
           Inl e \<Rightarrow> Inl e
         | Inr childpos' \<Rightarrow> siftup_loop (heap[pos := heap ! childpos']) endpos childpos')
      else Inr (heap, pos))"
  by pat_completeness auto
termination
  by (relation "measure (\<lambda>(heap, endpos, pos). endpos - pos)")
     (auto split: if_splits sum.splits)

definition siftup :: "entry list \<Rightarrow> nat \<Rightarrow> entry list result" where
  "siftup heap pos =
     (let newitem = heap ! pos in
      case siftup_loop heap (length heap) pos of
        Inl e \<Rightarrow> Inl e
      | Inr (heap', pos') \<Rightarrow> siftdown (heap'[pos' := newitem]) pos pos')"

text \<open>\<^verbatim>\<open>heapq.heappush(heap, item)\<close>: append, then sift down from the last position.\<close>

definition heappush :: "entry list \<Rightarrow> entry \<Rightarrow> entry list result" where
  "heappush heap item = siftdown (heap @ [item]) 0 (length heap)"

text \<open>
  \<^verbatim>\<open>heapq.heappop(heap)\<close>: \<^verbatim>\<open>heap.pop()\<close> raises \<^verbatim>\<open>IndexError\<close> on the empty
  list; otherwise the last element replaces the root and is sifted up. The result is the
  popped item and the heap left behind.
\<close>

definition heappop :: "entry list \<Rightarrow> (entry \<times> entry list) result" where
  "heappop heap =
     (if heap = [] then Inl IndexError
      else let lastelt = last heap; heap' = butlast heap in
        if heap' \<noteq> [] then
          (let returnitem = heap' ! 0 in
           case siftup (heap'[0 := lastelt]) 0 of
             Inl e \<Rightarrow> Inl e
           | Inr heap'' \<Rightarrow> Inr (returnitem, heap''))
        else Inr (lastelt, heap'))"

section \<open>DPLL\<close>

text \<open>
  The lists of clauses are Python list objects, and \<^verbatim>\<open>DPLL\<close> appends to one of
  them. They live in a store: the address of a list is its index, and \<^verbatim>\<open>[]\<close>
  allocates the next index. The clauses and literals held in the lists are values: the
  program calls nothing on a clause but \<^verbatim>\<open>len\<close>, iteration and \<^verbatim>\<open>union\<close>. The
  model and the queue are one object each, passed on and handed back by every call.
\<close>

type_synonym store = "clause list list"

text \<open>
  The \<^verbatim>\<open>for clause in clauses\<close> loop of \<^verbatim>\<open>DPLL\<close>, over the clauses still to be
  visited; \<open>unsatisfied_clauses\<close> is the address of the list being built.
  \<open>Some b\<close> is the \<^verbatim>\<open>return b, model\<close> inside the loop, \<open>None\<close> is the loop
  running to its end. The clauses visited are those the list \<^verbatim>\<open>clauses\<close> holds when
  the loop starts: the appends go to the list created just before, another object.
\<close>

fun check_clauses :: "clause list \<Rightarrow> model \<Rightarrow> nat \<Rightarrow> store \<Rightarrow> bool option \<times> store" where
  "check_clauses [] model unsatisfied_clauses st = (None, st)"
| "check_clauses (clause # rest) model unsatisfied_clauses st =
     (let c = clauseSatisfied clause model in
      if c = Some False then (Some False, st)
      else
        let st' = (if c = None
                   then st[unsatisfied_clauses := st ! unsatisfied_clauses @ [clause]]
                   else st)
        in if st' ! unsatisfied_clauses = [] then (Some True, st')
           else check_clauses rest model unsatisfied_clauses st')"

text \<open>
  \<^verbatim>\<open>DPLL(clauses, symbols, model)\<close>, with \<open>clauses\<close> the address of the clause
  list. It returns what the Python returns (or the exception raised), together with the
  queue and the store as the call leaves them.
\<close>

function (domintros) DPLL :: "nat \<Rightarrow> entry list \<Rightarrow> model \<Rightarrow> store
    \<Rightarrow> (bool \<times> model \<times> entry list) result \<times> store" where
  "DPLL clauses symbols model st =
     (let unsatisfied_clauses = length st;
          st0 = st @ [[]]
      in case check_clauses (st0 ! clauses) model unsatisfied_clauses st0 of
           (Some b, st1) \<Rightarrow> (Inr (b, model, symbols), st1)
         | (None, st1) \<Rightarrow>
             if length symbols > 0 then
               (case heappop symbols of
                  Inl e \<Rightarrow> (Inl e, st1)
                | Inr ((cnt, P), symbols1) \<Rightarrow>
                    (case DPLL unsatisfied_clauses symbols1 (dict_set model P TTrue) st1 of
                       (Inl e, st2) \<Rightarrow> (Inl e, st2)
                     | (Inr (satisfiable, model2, symbols2), st2) \<Rightarrow>
                         if \<not> satisfiable then
                           (case DPLL unsatisfied_clauses symbols2
                                   (dict_set model2 P TFalse) st2 of
                              (Inl e, st3) \<Rightarrow> (Inl e, st3)
                            | (Inr (satisfiable3, model3, symbols3), st3) \<Rightarrow>
                                if \<not> satisfiable3 then
                                  (case heappush symbols3 (cnt, P) of
                                     Inl e \<Rightarrow> (Inl e, st3)
                                   | Inr symbols4 \<Rightarrow>
                                       (Inr (satisfiable3, dict_set model3 P Free, symbols4),
                                        st3))
                                else (Inr (satisfiable3, model3, symbols3), st3))
                         else (Inr (satisfiable, model2, symbols2), st2)))
             else (Inr (False, model, symbols), st1))"
  by pat_completeness auto

section \<open>DPLLSatisfiable\<close>

text \<open>
  The body of \<^verbatim>\<open>for literal in clause\<close>: count the occurrence, and record the sign
  in the symbol's polarity set (created empty when the symbol is first met).
\<close>

fun count_literals :: "clause \<Rightarrow> int dict \<times> bool set dict
    \<Rightarrow> (int dict \<times> bool set dict) result" where
  "count_literals [] (symbols_ranking, pure_symbols) = Inr (symbols_ranking, pure_symbols)"
| "count_literals (literal # rest) (symbols_ranking, pure_symbols) =
     (let symbols_ranking' =
            dict_set symbols_ranking literal
              ((case dict_get symbols_ranking literal of None \<Rightarrow> 0 | Some cnt \<Rightarrow> cnt) + 1);
          pure_symbols' =
            (if dict_get pure_symbols literal = None
             then dict_set pure_symbols literal {}
             else pure_symbols)
      in case dict_get pure_symbols' literal of
           None \<Rightarrow> Inl KeyError
         | Some signs \<Rightarrow>
             count_literals rest
               (symbols_ranking', dict_set pure_symbols' literal (insert (sign literal) signs)))"

text \<open>
  The \<^verbatim>\<open>for clause in kb\<close> loop. For a clause of length 1 the source evaluates
  \<^verbatim>\<open>unit_clauses.union(clause)\<close> and drops the set it returns, so \<open>unit_clauses\<close>
  goes on as it was.
\<close>

fun scan_kb :: "clause list \<Rightarrow> int dict \<times> bool set dict \<times> Literal list
    \<Rightarrow> (int dict \<times> bool set dict \<times> Literal list) result" where
  "scan_kb [] (symbols_ranking, pure_symbols, unit_clauses) =
     Inr (symbols_ranking, pure_symbols, unit_clauses)"
| "scan_kb (clause # rest) (symbols_ranking, pure_symbols, unit_clauses) =
     (let dropped = (if length clause = 1
                     then Some (set_union unit_clauses clause) else None)
      in case count_literals clause (symbols_ranking, pure_symbols) of
           Inl e \<Rightarrow> Inl e
         | Inr (symbols_ranking', pure_symbols') \<Rightarrow>
             scan_kb rest (symbols_ranking', pure_symbols', unit_clauses))"

text \<open>
  The signs recorded for a symbol in \<^verbatim>\<open>pure_symbols\<close>; none when the symbol has no entry.
\<close>

definition recorded_signs :: "bool set dict \<Rightarrow> Literal \<Rightarrow> bool set" where
  "recorded_signs pure_symbols k =
     (case dict_get pure_symbols k of None \<Rightarrow> {} | Some signs \<Rightarrow> signs)"

text \<open>The class a symbol is queued with: the \<^verbatim>\<open>if/elif/else\<close> of the second loop.\<close>

definition importance :: "bool set dict \<Rightarrow> Literal list \<Rightarrow> Literal
    \<Rightarrow> QueueImportance result" where
  "importance pure_symbols unit_clauses literal =
     (case dict_get pure_symbols literal of
        None \<Rightarrow> Inl KeyError
      | Some signs \<Rightarrow>
          Inr (if card signs = 1 then PURE
               else if \<not> set_member literal unit_clauses then REST
               else UNIT))"

text \<open>The \<^verbatim>\<open>for literal, cnt in symbols_ranking.items()\<close> loop that fills the queue.\<close>

fun push_symbols :: "int dict \<Rightarrow> bool set dict \<Rightarrow> Literal list \<Rightarrow> entry list
    \<Rightarrow> entry list result" where
  "push_symbols [] pure_symbols unit_clauses symbols = Inr symbols"
| "push_symbols ((literal, cnt) # items) pure_symbols unit_clauses symbols =
     (case importance pure_symbols unit_clauses literal of
        Inl e \<Rightarrow> Inl e
      | Inr c \<Rightarrow>
          (case heappush symbols ((c, - cnt), literal) of
             Inl e \<Rightarrow> Inl e
           | Inr symbols' \<Rightarrow> push_symbols items pure_symbols unit_clauses symbols'))"

text \<open>
  \<^verbatim>\<open>DPLLSatisfiable(kb)\<close> on a store, \<open>kb\<close> being the address of the list of
  clauses (\<^verbatim>\<open>clauses = kb\<close> is the same list object).
\<close>

definition DPLLSatisfiable_store :: "nat \<Rightarrow> store \<Rightarrow> (bool \<times> model) result \<times> store" where
  "DPLLSatisfiable_store kb st =
     (let clauses = kb in
      case scan_kb (st ! kb) ([], [], []) of
        Inl e \<Rightarrow> (Inl e, st)
      | Inr (symbols_ranking, pure_symbols, unit_clauses) \<Rightarrow>
          (case push_symbols symbols_ranking pure_symbols unit_clauses [] of
             Inl e \<Rightarrow> (Inl e, st)
           | Inr symbols \<Rightarrow>
               (let model = map (\<lambda>(symbol, cnt). (symbol, Free)) symbols_ranking in
                case DPLL clauses symbols model st of
                  (Inl e, st') \<Rightarrow> (Inl e, st')
                | (Inr (satisfiable, model', symbols'), st') \<Rightarrow>
                    (Inr (satisfiable, model'), st'))))"

text \<open>A call on a knowledge base: the list is the only object in the store.\<close>

definition DPLLSatisfiable :: "clause list \<Rightarrow> (bool \<times> model) result" where
  "DPLLSatisfiable kb = fst (DPLLSatisfiable_store 0 [kb])"

text \<open>The queue \<^verbatim>\<open>symbols\<close> that \<^verbatim>\<open>DPLLSatisfiable\<close> hands to \<^verbatim>\<open>DPLL\<close>.\<close>

definition ranking :: "clause list \<Rightarrow> entry list result" where
  "ranking kb =
     (case scan_kb kb ([], [], []) of
        Inl e \<Rightarrow> Inl e
      | Inr (symbols_ranking, pure_symbols, unit_clauses) \<Rightarrow>
          push_symbols symbols_ranking pure_symbols unit_clauses [])"

section \<open>The runs of DPLL\<close>

text \<open>
  The paths through the body of \<^verbatim>\<open>DPLL\<close>, one rule for each: \<open>DPLL_run clauses
  symbols model st r\<close> says that the call leaves with \<open>r\<close>. It is shown below to
  describe the function, and carries the inductions on the search.
\<close>

inductive DPLL_run :: "nat \<Rightarrow> entry list \<Rightarrow> model \<Rightarrow> store
    \<Rightarrow> (bool \<times> model \<times> entry list) result \<times> store \<Rightarrow> bool" where
  returned:
    "check_clauses ((st @ [[]]) ! clauses) model (length st) (st @ [[]]) = (Some b, st1)
     \<Longrightarrow> DPLL_run clauses symbols model st (Inr (b, model, symbols), st1)"
| no_symbols:
    "check_clauses ((st @ [[]]) ! clauses) model (length st) (st @ [[]]) = (None, st1)
     \<Longrightarrow> symbols = []
     \<Longrightarrow> DPLL_run clauses symbols model st (Inr (False, model, symbols), st1)"
| pop_raised:
    "check_clauses ((st @ [[]]) ! clauses) model (length st) (st @ [[]]) = (None, st1)
     \<Longrightarrow> symbols \<noteq> []
     \<Longrightarrow> heappop symbols = Inl e
     \<Longrightarrow> DPLL_run clauses symbols model st (Inl e, st1)"
| first_raised:
    "check_clauses ((st @ [[]]) ! clauses) model (length st) (st @ [[]]) = (None, st1)
     \<Longrightarrow> symbols \<noteq> []
     \<Longrightarrow> heappop symbols = Inr ((cnt, P), symbols1)
     \<Longrightarrow> DPLL_run (length st) symbols1 (dict_set model P TTrue) st1 (Inl e, st2)
     \<Longrightarrow> DPLL_run clauses symbols model st (Inl e, st2)"
| first_satisfiable:
    "check_clauses ((st @ [[]]) ! clauses) model (length st) (st @ [[]]) = (None, st1)
     \<Longrightarrow> symbols \<noteq> []
     \<Longrightarrow> heappop symbols = Inr ((cnt, P), symbols1)
     \<Longrightarrow> DPLL_run (length st) symbols1 (dict_set model P TTrue) st1
           (Inr (True, model2, symbols2), st2)
     \<Longrightarrow> DPLL_run clauses symbols model st (Inr (True, model2, symbols2), st2)"
| second_raised:
    "check_clauses ((st @ [[]]) ! clauses) model (length st) (st @ [[]]) = (None, st1)
     \<Longrightarrow> symbols \<noteq> []
     \<Longrightarrow> heappop symbols = Inr ((cnt, P), symbols1)
     \<Longrightarrow> DPLL_run (length st) symbols1 (dict_set model P TTrue) st1
           (Inr (False, model2, symbols2), st2)
     \<Longrightarrow> DPLL_run (length st) symbols2 (dict_set model2 P TFalse) st2 (Inl e, st3)
     \<Longrightarrow> DPLL_run clauses symbols model st (Inl e, st3)"
| second_satisfiable:
    "check_clauses ((st @ [[]]) ! clauses) model (length st) (st @ [[]]) = (None, st1)
     \<Longrightarrow> symbols \<noteq> []
     \<Longrightarrow> heappop symbols = Inr ((cnt, P), symbols1)
     \<Longrightarrow> DPLL_run (length st) symbols1 (dict_set model P TTrue) st1
           (Inr (False, model2, symbols2), st2)
     \<Longrightarrow> DPLL_run (length st) symbols2 (dict_set model2 P TFalse) st2
           (Inr (True, model3, symbols3), st3)
     \<Longrightarrow> DPLL_run clauses symbols model st (Inr (True, model3, symbols3), st3)"
| push_raised:
    "check_clauses ((st @ [[]]) ! clauses) model (length st) (st @ [[]]) = (None, st1)
     \<Longrightarrow> symbols \<noteq> []
     \<Longrightarrow> heappop symbols = Inr ((cnt, P), symbols1)
     \<Longrightarrow> DPLL_run (length st) symbols1 (dict_set model P TTrue) st1
           (Inr (False, model2, symbols2), st2)
     \<Longrightarrow> DPLL_run (length st) symbols2 (dict_set model2 P TFalse) st2
           (Inr (False, model3, symbols3), st3)
     \<Longrightarrow> heappush symbols3 (cnt, P) = Inl e
     \<Longrightarrow> DPLL_run clauses symbols model st (Inl e, st3)"
| exhausted:
    "check_clauses ((st @ [[]]) ! clauses) model (length st) (st @ [[]]) = (None, st1)
     \<Longrightarrow> symbols \<noteq> []
     \<Longrightarrow> heappop symbols = Inr ((cnt, P), symbols1)
     \<Longrightarrow> DPLL_run (length st) symbols1 (dict_set model P TTrue) st1
           (Inr (False, model2, symbols2), st2)
     \<Longrightarrow> DPLL_run (length st) symbols2 (dict_set model2 P TFalse) st2
           (Inr (False, model3, symbols3), st3)
     \<Longrightarrow> heappush symbols3 (cnt, P) = Inr symbols4
     \<Longrightarrow> DPLL_run clauses symbols model st
           (Inr (False, dict_set model3 P Free, symbols4), st3)"

section \<open>Termination of the search\<close>

declare siftdown_loop.simps [simp del] siftup_loop.simps [simp del]

text \<open>The queue operations change the length of the queue by exactly one.\<close>

lemma siftdown_loop_length:
  "siftdown_loop heap startpos newitem pos = Inr heap' \<Longrightarrow> length heap' = length heap"
proof (induction heap startpos newitem pos arbitrary: heap' rule: siftdown_loop.induct)
  case (1 heap startpos newitem pos)
  from "1.prems" "1.IH" show ?case
    by (subst (asm) siftdown_loop.simps)
       (auto simp: Let_def split: if_splits sum.splits bool.splits)
qed

lemma siftup_loop_length:
  "siftup_loop heap endpos pos = Inr (heap', pos') \<Longrightarrow> length heap' = length heap"
proof (induction heap endpos pos arbitrary: heap' pos' rule: siftup_loop.induct)
  case (1 heap endpos pos)
  from "1.prems" "1.IH" show ?case
    by (subst (asm) siftup_loop.simps)
       (auto simp: Let_def split: if_splits sum.splits)
qed

lemma siftdown_length: "siftdown heap startpos pos = Inr heap' \<Longrightarrow> length heap' = length heap"
  unfolding siftdown_def by (rule siftdown_loop_length)

lemma siftup_length: "siftup heap pos = Inr heap' \<Longrightarrow> length heap' = length heap"
  by (auto simp: siftup_def Let_def split: sum.splits prod.splits
           dest!: siftup_loop_length siftdown_length)

lemma heappush_length: "heappush heap item = Inr heap' \<Longrightarrow> length heap' = Suc (length heap)"
  by (auto simp: heappush_def dest!: siftdown_length)

lemma heappop_length:
  "heappop heap = Inr (item, heap') \<Longrightarrow> Suc (length heap') = length heap"
  by (cases heap rule: rev_cases)
     (auto simp: heappop_def Let_def split: if_splits sum.splits dest!: siftup_length)

lemma DPLL_run_length:
  "DPLL_run clauses symbols model st r \<Longrightarrow> fst r = Inr (False, model', symbols')
   \<Longrightarrow> length symbols' = length symbols"
proof (induction arbitrary: model' symbols' rule: DPLL_run.induct)
  case (exhausted st clauses model st1 symbols cnt P symbols1 model2 symbols2 st2
      model3 symbols3 st3 symbols4)
  from exhausted.IH(1) [of model2 symbols2] exhausted.IH(2) [of model3 symbols3]
    heappop_length [OF exhausted.hyps(3)] heappush_length [OF exhausted.hyps(6)]
    exhausted.prems
  show ?case by simp
qed simp_all

text \<open>
  Wherever \<^verbatim>\<open>DPLL\<close> is defined, its result is a run. A call that reports
  unsatisfiable has pushed back every symbol it popped, so the second recursive call
  starts with a queue as long as the first one's: the search terminates, the queue
  getting shorter with every level.
\<close>

lemma DPLL_run_partial:
  assumes "DPLL_dom (clauses, symbols, model, st)"
  shows "DPLL_run clauses symbols model st (DPLL clauses symbols model st)"
  using assms
proof (induction clauses symbols model st rule: DPLL.pinduct)
  case (1 clauses symbols model st)
  note eq = DPLL.psimps [OF "1.hyps"]
  obtain r st1 where chk:
    "check_clauses ((st @ [[]]) ! clauses) model (length st) (st @ [[]]) = (r, st1)"
    by force
  show ?case
  proof (cases r)
    case (Some b)
    with chk have "DPLL clauses symbols model st = (Inr (b, model, symbols), st1)"
      by (subst eq) simp
    with chk Some show ?thesis by (simp add: DPLL_run.returned)
  next
    case None
    note chkN = chk [unfolded None]
    show ?thesis
    proof (cases "symbols = []")
      case True
      with chkN have "DPLL clauses symbols model st = (Inr (False, model, symbols), st1)"
        by (subst eq) simp
      with chkN True show ?thesis by (simp add: DPLL_run.no_symbols)
    next
      case ne: False
      show ?thesis
      proof (cases "heappop symbols")
        case (Inl e)
        with chkN ne have "DPLL clauses symbols model st = (Inl e, st1)"
          by (subst eq) simp
        with chkN ne Inl show ?thesis by (simp add: DPLL_run.pop_raised)
      next
        case (Inr popped)
        obtain cnt P symbols1 where popped: "popped = ((cnt, P), symbols1)"
          by (cases popped) auto
        note pop = Inr [unfolded popped]
        let ?first = "DPLL (length st) symbols1 (dict_set model P TTrue) st1"
        have run1: "DPLL_run (length st) symbols1 (dict_set model P TTrue) st1 ?first"
          using "1.IH"(1) [OF refl refl chkN [symmetric] refl _ pop refl refl] ne by simp
        obtain r1 st2 where first: "?first = (r1, st2)" by force
        show ?thesis
        proof (cases r1)
          case (Inl e)
          with chkN ne pop first have "DPLL clauses symbols model st = (Inl e, st2)"
            by (subst eq) simp
          with chkN ne pop run1 first Inl show ?thesis
            by (simp add: DPLL_run.first_raised)
        next
          case (Inr t)
          obtain satisfiable model2 symbols2 where t: "t = (satisfiable, model2, symbols2)"
            by (cases t) auto
          note first' = first [unfolded Inr t]
          show ?thesis
          proof (cases satisfiable)
            case True
            with chkN ne pop first' have
              "DPLL clauses symbols model st = (Inr (True, model2, symbols2), st2)"
              by (subst eq) simp
            with chkN ne pop run1 first' True show ?thesis
              by (simp add: DPLL_run.first_satisfiable)
          next
            case unsat1: False
            then have first'': "?first = (Inr (False, model2, symbols2), st2)"
              using first' by simp
            let ?second = "DPLL (length st) symbols2 (dict_set model2 P TFalse) st2"
            have run2: "DPLL_run (length st) symbols2 (dict_set model2 P TFalse) st2 ?second"
              using "1.IH"(2) [OF refl refl chkN [symmetric] refl _ pop refl refl
                  first'' [symmetric] refl refl refl] ne by simp
            obtain r2 st3 where second: "?second = (r2, st3)" by force
            show ?thesis
            proof (cases r2)
              case (Inl e)
              with chkN ne pop first'' second have
                "DPLL clauses symbols model st = (Inl e, st3)"
                by (subst eq) simp
              with chkN ne pop run1 run2 first'' second Inl show ?thesis
                by (simp add: DPLL_run.second_raised)
            next
              case (Inr t')
              obtain satisfiable3 model3 symbols3
                where t': "t' = (satisfiable3, model3, symbols3)"
                by (cases t') auto
              note second' = second [unfolded Inr t']
              show ?thesis
              proof (cases satisfiable3)
                case True
                with chkN ne pop first'' second' have
                  "DPLL clauses symbols model st = (Inr (True, model3, symbols3), st3)"
                  by (subst eq) simp
                with chkN ne pop run1 run2 first'' second' True show ?thesis
                  by (simp add: DPLL_run.second_satisfiable)
              next
                case unsat2: False
                then have second'': "?second = (Inr (False, model3, symbols3), st3)"
                  using second' by simp
                show ?thesis
                proof (cases "heappush symbols3 (cnt, P)")
                  case (Inl e)
                  with chkN ne pop first'' second'' have
                    "DPLL clauses symbols model st = (Inl e, st3)"
                    by (subst eq) simp
                  with chkN ne pop run1 run2 first'' second'' Inl show ?thesis
                    by (simp add: DPLL_run.push_raised)
                next
                  case (Inr symbols4)
                  with chkN ne pop first'' second'' have
                    "DPLL clauses symbols model st =
                       (Inr (False, dict_set model3 P Free, symbols4), st3)"
                    by (subst eq) simp
                  with chkN ne pop run1 run2 first'' second'' Inr show ?thesis
                    by (simp add: DPLL_run.exhausted)
                qed
              qed
            qed
          qed
        qed
      qed
    qed
  qed
qed

lemma DPLL_dom_all: "DPLL_dom (clauses, symbols, model, st)"
proof (induction "length symbols" arbitrary: clauses symbols model st rule: less_induct)
  case less
  show ?case
  proof (rule DPLL.domintros, goal_cases)
    case (1 st1 c n P symbols1)
    from 1(3) have "Suc (length symbols1) = length symbols" by (rule heappop_length)
    then show ?case by (intro less) simp
  next
    case (2 st1 c n P symbols1 st2 model2 symbols2 b)
    from 2(3) have len: "Suc (length symbols1) = length symbols" by (rule heappop_length)
    then have dom: "DPLL_dom (length st, symbols1, dict_set model P TTrue, st1)"
      by (intro less) simp
    have "DPLL_run (length st) symbols1 (dict_set model P TTrue) st1
            (DPLL (length st) symbols1 (dict_set model P TTrue) st1)"
      by (rule DPLL_run_partial [OF dom])
    moreover from 2(4) have
      "fst (DPLL (length st) symbols1 (dict_set model P TTrue) st1) = Inr (False, model2, symbols2)"
      by (metis fst_conv)
    ultimately have "length symbols2 = length symbols1" by (rule DPLL_run_length)
    with len show ?case by (intro less) simp
  qed
qed

termination DPLL
  by (auto intro: DPLL_dom_all)

declare DPLL.simps [simp del]

lemma DPLL_run_DPLL: "DPLL_run clauses symbols model st (DPLL clauses symbols model st)"
  by (rule DPLL_run_partial) (rule DPLL_dom_all)

section \<open>Dictionaries\<close>

lemma dict_get_name: "name k = name k' \<Longrightarrow> dict_get d k = dict_get d k'"
  by (induction d) (auto simp: Literal_eq_def)

lemma dict_get_dict_set:
  "dict_get (dict_set d k v) k' = (if name k = name k' then Some v else dict_get d k')"
  by (induction d) (auto simp: Literal_eq_def)

lemma dict_get_Some_entry: "dict_get d k = Some v \<Longrightarrow> \<exists>k'. (k', v) \<in> set d"
  by (induction d) (auto split: if_splits)

lemma dict_names_entry: "(k, v) \<in> set d \<Longrightarrow> name k \<in> set (dict_names d)"
  by (induction d) auto

lemma dict_get_entry:
  "distinct (dict_names d) \<Longrightarrow> (k, v) \<in> set d \<Longrightarrow> dict_get d k = Some v"
proof (induction d)
  case Nil
  then show ?case by simp
next
  case (Cons e d)
  obtain k' v' where e: "e = (k', v')" by (cases e)
  show ?case
  proof (cases "(k, v) = e")
    case True
    with e show ?thesis by (simp add: Literal_eq_def)
  next
    case False
    with Cons.prems have mem: "(k, v) \<in> set d" by simp
    from dict_names_entry [OF mem] Cons.prems(1) e have "name k' \<noteq> name k" by auto
    with Cons.IH mem Cons.prems(1) e show ?thesis by (simp add: Literal_eq_def)
  qed
qed

lemma dict_set_names:
  "dict_names (dict_set d k v) =
     (if name k \<in> set (dict_names d) then dict_names d else dict_names d @ [name k])"
  by (induction d) (auto simp: Literal_eq_def)

lemma dict_set_distinct:
  "distinct (dict_names d) \<Longrightarrow> distinct (dict_names (dict_set d k v))"
  by (simp add: dict_set_names)

section \<open>Evaluation of a clause\<close>

text \<open>
  What the loop of \<^verbatim>\<open>clauseSatisfied\<close> returns, for any value of the flag it starts
  with. A literal whose symbol has no entry in the model is passed over.
\<close>

lemma clauseSatisfied_loop_eq:
  "clauseSatisfied_loop clause model clause_has_free =
     (if \<exists>l\<in>set clause. sign l \<and> dict_get model l = Some TTrue
                          \<or> \<not> sign l \<and> dict_get model l = Some TFalse
      then Some True
      else if clause_has_free \<or> (\<exists>l\<in>set clause. dict_get model l = Some Free) then None
      else Some False)"
proof (induction clause arbitrary: clause_has_free)
  case Nil
  show ?case by simp
next
  case (Cons literal rest)
  show ?case
  proof (cases "dict_get model literal")
    case None
    then show ?thesis by (auto simp: Cons.IH)
  next
    case (Some tested_literal)
    then show ?thesis by (cases tested_literal) (auto simp: Cons.IH)
  qed
qed

text \<open>The verdict depends on the literals of the clause, not on their order.\<close>

lemma clauseSatisfied_order:
  "set clause = set clause' \<Longrightarrow> clauseSatisfied clause model = clauseSatisfied clause' model"
  by (simp add: clauseSatisfied_def clauseSatisfied_loop_eq)

text \<open>
  C8. \<^verbatim>\<open>clauseSatisfied\<close> returns \<^verbatim>\<open>True\<close> exactly when some literal of the clause
  agrees with the committed state of its symbol (a positive literal with \<^verbatim>\<open>True\<close>, a
  negative one with \<^verbatim>\<open>False\<close>); otherwise \<^verbatim>\<open>None\<close> when some literal's symbol is
  \<^verbatim>\<open>"Free"\<close>; otherwise \<^verbatim>\<open>False\<close>. The empty clause gives \<^verbatim>\<open>False\<close> under
  every model. This holds for every clause and every model, in particular for the models
  that have an entry for each symbol of the clause. The function only reads the clause
  and the model: its embedding returns the verdict and nothing else.
\<close>

theorem clauseSatisfied_three_valued:
  "clauseSatisfied clause model =
     (if \<exists>l\<in>set clause. sign l \<and> dict_get model l = Some TTrue
                          \<or> \<not> sign l \<and> dict_get model l = Some TFalse
      then Some True
      else if \<exists>l\<in>set clause. dict_get model l = Some Free then None
      else Some False)
   \<and> clauseSatisfied [] model = Some False"
  by (simp add: clauseSatisfied_def clauseSatisfied_loop_eq)

text \<open>
  C9, as the source has it. A clause written as the set \<^verbatim>\<open>{A, -A}\<close> holds one
  literal only, the first: \<^verbatim>\<open>Literal.__eq__\<close> and \<^verbatim>\<open>__hash__\<close> look at the name,
  so \<^verbatim>\<open>-A\<close> is already in the set when it is added. With \<^verbatim>\<open>A\<close> committed to
  \<^verbatim>\<open>False\<close> that clause is falsified.
\<close>

theorem set_clause_both_polarities_falsified:
  "pyset [Literal ''A'' True, neg (Literal ''A'' True)] = [Literal ''A'' True]
   \<and> clauseSatisfied (pyset [Literal ''A'' True, neg (Literal ''A'' True)])
        [(Literal ''A'' True, TFalse)] = Some False"
  by code_simp

text \<open>
  C9, amended. A clause that does hold a positive and a negative literal of one symbol
  (a list of literals can) is never falsified under a model with an entry for that
  symbol: it is satisfied once the symbol is committed to \<^verbatim>\<open>True\<close> or to
  \<^verbatim>\<open>False\<close>, and pending or satisfied while the symbol is \<^verbatim>\<open>"Free"\<close>.
\<close>

theorem both_polarities_not_falsified:
  assumes "Literal n True \<in> set clause" and "Literal n False \<in> set clause"
    and "dict_get model (Literal n True) = Some v"
  shows "clauseSatisfied clause model \<noteq> Some False
     \<and> (v \<noteq> Free \<longrightarrow> clauseSatisfied clause model = Some True)"
proof -
  have neg: "dict_get model (Literal n False) = Some v"
    using assms(3) dict_get_name [of "Literal n False" "Literal n True" model] by simp
  show ?thesis
  proof (cases v)
    case TTrue
    with assms(1,3) have "\<exists>l\<in>set clause. sign l \<and> dict_get model l = Some TTrue
        \<or> \<not> sign l \<and> dict_get model l = Some TFalse"
      by (intro bexI [of _ "Literal n True"]) simp_all
    then show ?thesis by (simp add: clauseSatisfied_def clauseSatisfied_loop_eq)
  next
    case TFalse
    with assms(2) neg have "\<exists>l\<in>set clause. sign l \<and> dict_get model l = Some TTrue
        \<or> \<not> sign l \<and> dict_get model l = Some TFalse"
      by (intro bexI [of _ "Literal n False"]) simp_all
    then show ?thesis by (simp add: clauseSatisfied_def clauseSatisfied_loop_eq)
  next
    case Free
    with assms(1,3) have "\<exists>l\<in>set clause. dict_get model l = Some Free"
      by (intro bexI [of _ "Literal n True"]) simp_all
    with Free show ?thesis by (simp add: clauseSatisfied_def clauseSatisfied_loop_eq)
  qed
qed

text \<open>The list clause \<^verbatim>\<open>[A, -A]\<close> with \<^verbatim>\<open>A\<close> committed to \<^verbatim>\<open>False\<close>.\<close>

theorem both_polarities_not_falsified_witness:
  "Literal ''A'' True \<in> set [Literal ''A'' True, Literal ''A'' False]
   \<and> Literal ''A'' False \<in> set [Literal ''A'' True, Literal ''A'' False]
   \<and> dict_get [(Literal ''A'' True, TFalse)] (Literal ''A'' True) = Some TFalse
   \<and> clauseSatisfied [Literal ''A'' True, Literal ''A'' False] [(Literal ''A'' True, TFalse)]
       = Some True"
  using both_polarities_not_falsified [of "''A''" "[Literal ''A'' True, Literal ''A'' False]"
      "[(Literal ''A'' True, TFalse)]" TFalse]
  by (simp add: Literal_eq_def)

section \<open>The queue and the classes of its entries\<close>

text \<open>
  Two entries of one class are compared by count and name and the comparison returns;
  two entries of different classes cannot be compared.
\<close>

lemma entry_lt_classes:
  "fst (fst a) \<noteq> fst (fst b) \<Longrightarrow> entry_lt a b = Inl TypeError"
  "fst (fst a) = fst (fst b) \<Longrightarrow> \<exists>r. entry_lt a b = Inr r"
  by (auto simp: entry_lt_def key_lt_def QueueImportance_lt_def prod_eq_iff)

text \<open>What a push leaves in the queue is what was there, and the new entry.\<close>

lemma siftdown_loop_set:
  "siftdown_loop heap startpos newitem pos = Inr heap' \<Longrightarrow> pos < length heap
   \<Longrightarrow> set heap' \<subseteq> insert newitem (set heap)"
proof (induction heap startpos newitem pos arbitrary: heap' rule: siftdown_loop.induct)
  case (1 heap startpos newitem pos)
  show ?case
  proof (cases "pos > startpos")
    case False
    with "1.prems" have "heap' = heap[pos := newitem]"
      by (subst (asm) siftdown_loop.simps) simp
    then show ?thesis using set_update_subset_insert by fast
  next
    case True
    let ?parentpos = "(pos - 1) div 2"
    from True "1.prems"(2) have pp: "?parentpos < length heap" by simp
    then have parent: "heap ! ?parentpos \<in> set heap" by simp
    show ?thesis
    proof (cases "entry_lt newitem (heap ! ?parentpos)")
      case (Inl e)
      with True "1.prems" show ?thesis by (subst (asm) siftdown_loop.simps) (simp add: Let_def)
    next
      case (Inr b)
      show ?thesis
      proof (cases b)
        case False
        with True Inr "1.prems" have "heap' = heap[pos := newitem]"
          by (subst (asm) siftdown_loop.simps) (simp add: Let_def)
        then show ?thesis using set_update_subset_insert by fast
      next
        case b: True
        with True Inr "1.prems" have
          rec: "siftdown_loop (heap[pos := heap ! ?parentpos]) startpos newitem ?parentpos
                  = Inr heap'"
          by (subst (asm) siftdown_loop.simps) (simp add: Let_def)
        have "set heap' \<subseteq> insert newitem (set (heap[pos := heap ! ?parentpos]))"
          using "1.IH" [OF True refl refl Inr, of heap'] b rec pp by simp
        moreover have "set (heap[pos := heap ! ?parentpos]) \<subseteq> set heap"
          using set_update_subset_insert [of heap pos "heap ! ?parentpos"] parent by auto
        ultimately show ?thesis by auto
      qed
    qed
  qed
qed

lemma heappush_set:
  "heappush heap item = Inr heap' \<Longrightarrow> set heap' \<subseteq> insert item (set heap)"
  unfolding heappush_def siftdown_def
  by (drule siftdown_loop_set) auto

lemma heappush_empty: "heappush [] item = Inr [item]"
  by (simp add: heappush_def siftdown_def siftdown_loop.simps)

text \<open>
  On a queue whose entries all have the class of the new one, a push returns; on a
  queue that holds entries of another class, it raises \<^verbatim>\<open>TypeError\<close>.
\<close>

lemma siftdown_loop_uniform:
  "\<forall>e\<in>set heap. fst (fst e) = c \<Longrightarrow> fst (fst newitem) = c \<Longrightarrow> pos < length heap
   \<Longrightarrow> \<exists>heap'. siftdown_loop heap startpos newitem pos = Inr heap'"
proof (induction heap startpos newitem pos rule: siftdown_loop.induct)
  case (1 heap startpos newitem pos)
  show ?case
  proof (cases "pos > startpos")
    case False
    then show ?thesis by (subst siftdown_loop.simps) simp
  next
    case True
    let ?parentpos = "(pos - 1) div 2"
    from True "1.prems"(3) have pp: "?parentpos < length heap" by simp
    then have parent: "heap ! ?parentpos \<in> set heap" by simp
    with "1.prems" have "fst (fst newitem) = fst (fst (heap ! ?parentpos))" by simp
    from entry_lt_classes(2) [OF this] obtain b
      where lt: "entry_lt newitem (heap ! ?parentpos) = Inr b" ..
    show ?thesis
    proof (cases b)
      case False
      with True lt show ?thesis by (subst siftdown_loop.simps) (simp add: Let_def)
    next
      case b: True
      have "\<forall>e\<in>set (heap[pos := heap ! ?parentpos]). fst (fst e) = c"
        using set_update_subset_insert [of heap pos "heap ! ?parentpos"] parent "1.prems"(1)
        by auto
      with "1.IH" [OF True refl refl lt] b "1.prems"(2) pp
      obtain heap' where
        "siftdown_loop (heap[pos := heap ! ?parentpos]) startpos newitem ?parentpos = Inr heap'"
        by auto
      with True lt b show ?thesis by (subst siftdown_loop.simps) (simp add: Let_def)
    qed
  qed
qed

lemma siftdown_loop_uniform_set:
  assumes "\<forall>e\<in>set heap. fst (fst e) = c" and "fst (fst newitem) = c" and "pos < length heap"
  shows "\<exists>heap'. siftdown_loop heap startpos newitem pos = Inr heap'
           \<and> set heap' \<subseteq> insert newitem (set heap)"
proof -
  from siftdown_loop_uniform [OF assms] obtain heap'
    where "siftdown_loop heap startpos newitem pos = Inr heap'" ..
  with siftdown_loop_set [OF this assms(3)] show ?thesis by simp
qed

lemma heappush_uniform:
  assumes "\<forall>e\<in>set heap. fst (fst e) = c" and "fst (fst item) = c"
  shows "\<exists>heap'. heappush heap item = Inr heap' \<and> heap' \<noteq> []
           \<and> (\<forall>e\<in>set heap'. fst (fst e) = c)"
proof -
  from siftdown_loop_uniform [of "heap @ [item]" c item "length heap" 0] assms
  obtain heap' where push: "heappush heap item = Inr heap'"
    by (auto simp: heappush_def siftdown_def)
  from heappush_set [OF push] assms have "\<forall>e\<in>set heap'. fst (fst e) = c" by auto
  moreover from heappush_length [OF push] have "heap' \<noteq> []" by auto
  ultimately show ?thesis using push by simp
qed

lemma heappush_mixed:
  assumes "heap \<noteq> []" and "\<forall>e\<in>set heap. fst (fst e) = c" and "fst (fst item) \<noteq> c"
  shows "heappush heap item = Inl TypeError"
proof -
  let ?parentpos = "(length heap - 1) div 2"
  from assms(1) have pp: "?parentpos < length heap" by (cases heap) auto
  then have "(heap @ [item]) ! ?parentpos \<in> set heap" by (simp add: nth_append)
  with assms have "fst (fst item) \<noteq> fst (fst ((heap @ [item]) ! ?parentpos))" by auto
  from entry_lt_classes(1) [OF this] assms(1) show ?thesis
    by (simp add: heappush_def siftdown_def siftdown_loop.simps [of _ 0 _ "length heap"])
qed

text \<open>A pop on a queue of one class returns an entry of the queue and the rest of it.\<close>

lemma siftup_loop_uniform:
  "\<forall>e\<in>set heap. fst (fst e) = c \<Longrightarrow> endpos \<le> length heap \<Longrightarrow> pos < endpos
   \<Longrightarrow> \<exists>heap' pos'. siftup_loop heap endpos pos = Inr (heap', pos')
         \<and> set heap' \<subseteq> set heap \<and> length heap' = length heap \<and> pos' < endpos"
proof (induction heap endpos pos rule: siftup_loop.induct)
  case (1 heap endpos pos)
  let ?childpos = "2 * pos + 1"
  show ?case
  proof (cases "?childpos < endpos")
    case False
    with "1.prems" show ?thesis by (subst siftup_loop.simps) (simp add: Let_def)
  next
    case True
    let ?rightpos = "?childpos + 1"
    have "\<exists>cp. (if ?rightpos < endpos then
                 (case entry_lt (heap ! ?childpos) (heap ! ?rightpos) of
                    Inl e \<Rightarrow> Inl e
                  | Inr b \<Rightarrow> Inr (if \<not> b then ?rightpos else ?childpos))
               else Inr ?childpos) = Inr cp \<and> cp < endpos \<and> pos < cp"
    proof (cases "?rightpos < endpos")
      case False
      with True show ?thesis by simp
    next
      case r: True
      with True "1.prems"(1,2)
      have "fst (fst (heap ! ?childpos)) = fst (fst (heap ! ?rightpos))" by simp
      from entry_lt_classes(2) [OF this] obtain b
        where "entry_lt (heap ! ?childpos) (heap ! ?rightpos) = Inr b" ..
      with r True show ?thesis by simp
    qed
    then obtain cp where
      cp: "(if ?rightpos < endpos then
                 (case entry_lt (heap ! ?childpos) (heap ! ?rightpos) of
                    Inl e \<Rightarrow> Inl e
                  | Inr b \<Rightarrow> Inr (if \<not> b then ?rightpos else ?childpos))
               else Inr ?childpos) = Inr cp" and lt: "cp < endpos" "pos < cp"
      by blast
    from lt "1.prems"(2) have "heap ! cp \<in> set heap" by simp
    then have sub: "set (heap[pos := heap ! cp]) \<subseteq> set heap"
      using set_update_subset_insert [of heap pos "heap ! cp"] by auto
    with "1.prems"(1) have "\<forall>e\<in>set (heap[pos := heap ! cp]). fst (fst e) = c" by auto
    from "1.IH" [OF refl True refl cp this] "1.prems"(2) lt
    obtain heap' pos' where
      "siftup_loop (heap[pos := heap ! cp]) endpos cp = Inr (heap', pos')"
      "set heap' \<subseteq> set (heap[pos := heap ! cp])" "length heap' = length heap" "pos' < endpos"
      by auto
    moreover have "siftup_loop heap endpos pos
        = siftup_loop (heap[pos := heap ! cp]) endpos cp"
      by (subst siftup_loop.simps) (simp only: Let_def True if_True cp sum.case)
    ultimately show ?thesis using sub by auto
  qed
qed

lemma siftup_uniform:
  assumes "\<forall>e\<in>set heap. fst (fst e) = c" and "pos < length heap"
  shows "\<exists>heap'. siftup heap pos = Inr heap' \<and> set heap' \<subseteq> set heap"
proof -
  from siftup_loop_uniform [OF assms(1) le_refl assms(2)] obtain heap1 pos1 where
    loop: "siftup_loop heap (length heap) pos = Inr (heap1, pos1)"
    and sub1: "set heap1 \<subseteq> set heap" and len1: "length heap1 = length heap"
    and pos1: "pos1 < length heap"
    by blast
  let ?heap2 = "heap1[pos1 := heap ! pos]"
  from assms(2) have item: "heap ! pos \<in> set heap" by simp
  have sub2: "set ?heap2 \<subseteq> set heap"
    using set_update_subset_insert [of heap1 pos1 "heap ! pos"] sub1 item by auto
  with assms(1) have u2: "\<forall>e\<in>set ?heap2. fst (fst e) = c" by auto
  from pos1 len1 have p2: "pos1 < length ?heap2" by simp
  then have "?heap2 ! pos1 \<in> set ?heap2" by (rule nth_mem)
  with u2 have "fst (fst (?heap2 ! pos1)) = c" by blast
  from siftdown_loop_uniform_set [OF u2 this p2, of pos] obtain heap'
    where "siftdown_loop ?heap2 pos (?heap2 ! pos1) pos1 = Inr heap'"
      and "set heap' \<subseteq> insert (?heap2 ! pos1) (set ?heap2)"
    by blast
  moreover from this sub2 \<open>?heap2 ! pos1 \<in> set ?heap2\<close>
  have "set heap' \<subseteq> set heap" by blast
  ultimately show ?thesis using loop
    by (simp add: siftup_def siftdown_def Let_def)
qed

lemma heappop_uniform:
  assumes "\<forall>e\<in>set heap. fst (fst e) = c" and "heap \<noteq> []"
  shows "\<exists>item heap'. heappop heap = Inr (item, heap') \<and> item \<in> set heap
           \<and> set heap' \<subseteq> set heap"
proof (cases "butlast heap = []")
  case True
  with assms(2) show ?thesis by (simp add: heappop_def Let_def)
next
  case False
  let ?heap1 = "(butlast heap)[0 := last heap]"
  have "set (butlast heap) \<subseteq> set heap" by (auto dest: in_set_butlastD)
  moreover from assms(2) have "last heap \<in> set heap" by simp
  ultimately have sub: "set ?heap1 \<subseteq> set heap"
    using set_update_subset_insert [of "butlast heap" 0 "last heap"] by auto
  with assms(1) have u: "\<forall>e\<in>set ?heap1. fst (fst e) = c" by auto
  from False have "0 < length ?heap1" by (cases "butlast heap") simp_all
  from siftup_uniform [OF u this] obtain heap'
    where "siftup ?heap1 0 = Inr heap'" "set heap' \<subseteq> set ?heap1" by blast
  moreover from False have "butlast heap ! 0 \<in> set (butlast heap)"
    by (cases "butlast heap") simp_all
  then have "butlast heap ! 0 \<in> set heap" by (rule in_set_butlastD)
  ultimately show ?thesis using sub assms(2) False by (auto simp: heappop_def Let_def)
qed

section \<open>The scan of the knowledge base\<close>

text \<open>
  The first loop of \<^verbatim>\<open>DPLLSatisfiable\<close> never fails, gives every symbol of the
  knowledge base an entry in both dictionaries, records for each symbol the signs it
  occurs with, and leaves \<^verbatim>\<open>unit_clauses\<close> as it was.
\<close>

lemma dict_names_get: "name k \<in> set (dict_names d) \<longleftrightarrow> dict_get d k \<noteq> None"
  by (induction d) (auto simp: Literal_eq_def)

lemma dict_names_mem: "n \<in> set (dict_names d) \<longleftrightarrow> (\<exists>k v. (k, v) \<in> set d \<and> name k = n)"
  by (induction d) auto

lemma dict_set_names_mem:
  "n \<in> set (dict_names (dict_set d k v)) \<longleftrightarrow> n \<in> set (dict_names d) \<or> n = name k"
  by (auto simp: dict_set_names)

lemma recorded_signs_step:
  "s \<in> recorded_signs
      (dict_set (if dict_get pure_symbols literal = None
                 then dict_set pure_symbols literal {} else pure_symbols)
         literal (insert (sign literal) (recorded_signs pure_symbols literal))) k
   \<longleftrightarrow> s \<in> recorded_signs pure_symbols k \<or> (name literal = name k \<and> sign literal = s)"
proof (cases "name literal = name k")
  case True
  then have "dict_get pure_symbols k = dict_get pure_symbols literal"
    using dict_get_name [of k literal pure_symbols] by simp
  with True show ?thesis by (auto simp: recorded_signs_def dict_get_dict_set)
next
  case False
  then show ?thesis by (simp add: recorded_signs_def dict_get_dict_set)
qed

lemma count_literals_Cons:
  "count_literals (literal # rest) (symbols_ranking, pure_symbols)
     = count_literals rest
         (dict_set symbols_ranking literal
            ((case dict_get symbols_ranking literal of None \<Rightarrow> 0 | Some cnt \<Rightarrow> cnt) + 1),
          dict_set (if dict_get pure_symbols literal = None
                    then dict_set pure_symbols literal {} else pure_symbols)
            literal (insert (sign literal) (recorded_signs pure_symbols literal)))"
proof -
  have "dict_get (if dict_get pure_symbols literal = None
                  then dict_set pure_symbols literal {} else pure_symbols) literal
      = Some (recorded_signs pure_symbols literal)"
    by (auto simp: dict_get_dict_set recorded_signs_def)
  then show ?thesis by (simp add: Let_def)
qed

lemma count_literals_Inr:
  "\<exists>symbols_ranking' pure_symbols'.
     count_literals clause (symbols_ranking, pure_symbols)
       = Inr (symbols_ranking', pure_symbols')"
proof (induction clause arbitrary: symbols_ranking pure_symbols)
  case Nil
  show ?case by simp
next
  case (Cons literal rest)
  show ?case unfolding count_literals_Cons by (rule Cons.IH)
qed

lemma count_literals_names:
  "count_literals clause (symbols_ranking, pure_symbols) = Inr (symbols_ranking', pure_symbols')
   \<Longrightarrow> (n \<in> set (dict_names symbols_ranking')
          \<longleftrightarrow> n \<in> set (dict_names symbols_ranking) \<or> (\<exists>l\<in>set clause. name l = n))
     \<and> (n \<in> set (dict_names pure_symbols')
          \<longleftrightarrow> n \<in> set (dict_names pure_symbols) \<or> (\<exists>l\<in>set clause. name l = n))"
proof (induction clause arbitrary: symbols_ranking pure_symbols)
  case Nil
  then show ?case by simp
next
  case (Cons literal rest)
  from Cons.IH [OF Cons.prems [unfolded count_literals_Cons]]
  show ?case by (auto simp: dict_set_names_mem)
qed

lemma count_literals_signs:
  "count_literals clause (symbols_ranking, pure_symbols) = Inr (symbols_ranking', pure_symbols')
   \<Longrightarrow> s \<in> recorded_signs pure_symbols' k
         \<longleftrightarrow> s \<in> recorded_signs pure_symbols k
             \<or> (\<exists>l\<in>set clause. name l = name k \<and> sign l = s)"
proof (induction clause arbitrary: symbols_ranking pure_symbols)
  case Nil
  then show ?case by simp
next
  case (Cons literal rest)
  from Cons.IH [OF Cons.prems [unfolded count_literals_Cons]]
  show ?case unfolding recorded_signs_step by auto
qed

lemma scan_kb_Cons:
  "count_literals clause (symbols_ranking, pure_symbols) = Inr (sr1, ps1) \<Longrightarrow>
   scan_kb (clause # rest) (symbols_ranking, pure_symbols, unit_clauses)
     = scan_kb rest (sr1, ps1, unit_clauses)"
  by (simp add: Let_def)

lemma scan_kb_Inr:
  "\<exists>symbols_ranking' pure_symbols'.
     scan_kb kb (symbols_ranking, pure_symbols, unit_clauses)
       = Inr (symbols_ranking', pure_symbols', unit_clauses)"
proof (induction kb arbitrary: symbols_ranking pure_symbols)
  case Nil
  show ?case by simp
next
  case (Cons clause rest)
  from count_literals_Inr [of clause symbols_ranking pure_symbols] obtain sr1 ps1
    where "count_literals clause (symbols_ranking, pure_symbols) = Inr (sr1, ps1)" by blast
  from scan_kb_Cons [OF this] Cons.IH [of sr1 ps1] show ?case by simp
qed

lemma scan_kb_names:
  "scan_kb kb (symbols_ranking, pure_symbols, unit_clauses)
     = Inr (symbols_ranking', pure_symbols', unit_clauses')
   \<Longrightarrow> (n \<in> set (dict_names symbols_ranking')
          \<longleftrightarrow> n \<in> set (dict_names symbols_ranking)
              \<or> (\<exists>c\<in>set kb. \<exists>l\<in>set c. name l = n))
     \<and> (n \<in> set (dict_names pure_symbols')
          \<longleftrightarrow> n \<in> set (dict_names pure_symbols)
              \<or> (\<exists>c\<in>set kb. \<exists>l\<in>set c. name l = n))"
proof (induction kb arbitrary: symbols_ranking pure_symbols)
  case Nil
  then show ?case by simp
next
  case (Cons clause rest)
  from count_literals_Inr [of clause symbols_ranking pure_symbols] obtain sr1 ps1
    where c: "count_literals clause (symbols_ranking, pure_symbols) = Inr (sr1, ps1)" by blast
  from Cons.IH [OF Cons.prems [unfolded scan_kb_Cons [OF c]]] count_literals_names [OF c, of n]
  show ?case by auto
qed

lemma scan_kb_signs:
  "scan_kb kb (symbols_ranking, pure_symbols, unit_clauses)
     = Inr (symbols_ranking', pure_symbols', unit_clauses')
   \<Longrightarrow> s \<in> recorded_signs pure_symbols' k
         \<longleftrightarrow> s \<in> recorded_signs pure_symbols k
             \<or> (\<exists>c\<in>set kb. \<exists>l\<in>set c. name l = name k \<and> sign l = s)"
proof (induction kb arbitrary: symbols_ranking pure_symbols)
  case Nil
  then show ?case by simp
next
  case (Cons clause rest)
  from count_literals_Inr [of clause symbols_ranking pure_symbols] obtain sr1 ps1
    where c: "count_literals clause (symbols_ranking, pure_symbols) = Inr (sr1, ps1)" by blast
  from Cons.IH [OF Cons.prems [unfolded scan_kb_Cons [OF c]]] count_literals_signs [OF c, of s k]
  show ?case by auto
qed

lemma scan_kb_unit_clauses:
  "scan_kb kb (symbols_ranking, pure_symbols, unit_clauses)
     = Inr (symbols_ranking', pure_symbols', unit_clauses')
   \<Longrightarrow> unit_clauses' = unit_clauses"
  using scan_kb_Inr [of kb symbols_ranking pure_symbols unit_clauses] by auto

lemma scanned_names:
  assumes "scan_kb kb ([], [], []) = Inr (symbols_ranking, pure_symbols, unit_clauses)"
  shows "n \<in> set (dict_names symbols_ranking) \<longleftrightarrow> (\<exists>c\<in>set kb. \<exists>l\<in>set c. name l = n)"
    and "n \<in> set (dict_names pure_symbols) \<longleftrightarrow> (\<exists>c\<in>set kb. \<exists>l\<in>set c. name l = n)"
  using scan_kb_names [OF assms, of n] by simp_all

lemma scanned_signs:
  assumes "scan_kb kb ([], [], []) = Inr (symbols_ranking, pure_symbols, unit_clauses)"
  shows "s \<in> recorded_signs pure_symbols k
      \<longleftrightarrow> (\<exists>c\<in>set kb. \<exists>l\<in>set c. name l = name k \<and> sign l = s)"
  using scan_kb_signs [OF assms, of s k] by (simp add: recorded_signs_def)

lemma scanned_known:
  assumes "scan_kb kb ([], [], []) = Inr (symbols_ranking, pure_symbols, unit_clauses)"
    and "(k, cnt) \<in> set symbols_ranking"
  shows "dict_get pure_symbols k \<noteq> None"
proof -
  from assms(2) have "\<exists>k' v. (k', v) \<in> set symbols_ranking \<and> name k' = name k" by blast
  then have "name k \<in> set (dict_names symbols_ranking)" by (simp only: dict_names_mem)
  then have "name k \<in> set (dict_names pure_symbols)"
    by (simp only: scanned_names [OF assms(1)])
  then show ?thesis by (simp add: dict_names_get)
qed

lemma scanned_occurs:
  assumes "scan_kb kb ([], [], []) = Inr (symbols_ranking, pure_symbols, unit_clauses)"
    and "c \<in> set kb" and "l \<in> set c"
  shows "\<exists>k cnt. (k, cnt) \<in> set symbols_ranking \<and> name k = name l"
proof -
  from assms(2,3) have "\<exists>c\<in>set kb. \<exists>l'\<in>set c. name l' = name l" by blast
  then have "name l \<in> set (dict_names symbols_ranking)"
    by (simp only: scanned_names [OF assms(1)])
  then show ?thesis by (simp only: dict_names_mem)
qed

lemma scanned_key_occurs:
  assumes "scan_kb kb ([], [], []) = Inr (symbols_ranking, pure_symbols, unit_clauses)"
    and "(k, cnt) \<in> set symbols_ranking"
  shows "\<exists>c\<in>set kb. \<exists>l\<in>set c. name l = name k"
proof -
  from assms(2) have "\<exists>k' v. (k', v) \<in> set symbols_ranking \<and> name k' = name k" by blast
  then have "name k \<in> set (dict_names symbols_ranking)" by (simp only: dict_names_mem)
  then show ?thesis by (simp only: scanned_names [OF assms(1)])
qed

text \<open>
  A symbol that occurs with one sign only is queued as PURE, one that occurs with both
  as REST. No symbol is queued as UNIT, \<^verbatim>\<open>unit_clauses\<close> being empty.
\<close>

lemma importance_Inr:
  "dict_get pure_symbols literal \<noteq> None \<Longrightarrow>
   importance pure_symbols unit_clauses literal
     = Inr (if card (recorded_signs pure_symbols literal) = 1 then PURE
            else if \<not> set_member literal unit_clauses then REST else UNIT)"
  by (auto simp: importance_def recorded_signs_def)

lemma scanned_one_polarity:
  assumes scan: "scan_kb kb ([], [], []) = Inr (symbols_ranking, pure_symbols, [])"
    and k: "(k, cnt) \<in> set symbols_ranking" "name k = name l1"
    and "c1 \<in> set kb" and "l1 \<in> set c1"
    and one: "\<forall>c\<in>set kb. \<forall>l\<in>set c. name l = name l1 \<longrightarrow> sign l = sign l1"
  shows "importance pure_symbols [] k = Inr PURE"
proof -
  have "s \<in> recorded_signs pure_symbols k \<longleftrightarrow> s = sign l1" for s
    unfolding scanned_signs [OF scan] using assms(4,5) one k(2) by metis
  then have "recorded_signs pure_symbols k = {sign l1}" by blast
  with scanned_known [OF scan k(1)] show ?thesis
    by (simp add: importance_Inr)
qed

lemma scanned_both_polarities:
  assumes scan: "scan_kb kb ([], [], []) = Inr (symbols_ranking, pure_symbols, [])"
    and k: "(k, cnt) \<in> set symbols_ranking" "name k = name l2"
    and "c2 \<in> set kb" and "l2 \<in> set c2" and "c3 \<in> set kb" and "l3 \<in> set c3"
    and "name l3 = name l2" and "sign l3 \<noteq> sign l2"
  shows "importance pure_symbols [] k = Inr REST"
proof -
  have "sign l2 \<in> recorded_signs pure_symbols k"
    unfolding scanned_signs [OF scan] using assms(4,5) k(2) by metis
  moreover have "sign l3 \<in> recorded_signs pure_symbols k"
    unfolding scanned_signs [OF scan] using assms(6,7,8) k(2) by metis
  ultimately have "s \<in> recorded_signs pure_symbols k" for s
    using assms(9) by (cases s; cases "sign l2"; cases "sign l3") simp_all
  then have "recorded_signs pure_symbols k = UNIV" by blast
  then have "card (recorded_signs pure_symbols k) = 2" by (simp add: UNIV_bool)
  with scanned_known [OF scan k(1)] show ?thesis
    by (simp add: importance_Inr)
qed

lemma importance_not_UNIT: "importance pure_symbols [] literal \<noteq> Inr UNIT"
  by (simp add: importance_def split: option.splits)

lemma push_symbols_not_UNIT:
  "push_symbols items pure_symbols [] symbols = Inr symbols'
   \<Longrightarrow> \<forall>e\<in>set symbols. fst (fst e) \<noteq> UNIT \<Longrightarrow> \<forall>e\<in>set symbols'. fst (fst e) \<noteq> UNIT"
proof (induction items arbitrary: symbols)
  case Nil
  then show ?case by simp
next
  case (Cons item items)
  obtain literal cnt where item: "item = (literal, cnt)" by (cases item)
  from Cons.prems(1) item obtain c symbols1
    where c: "importance pure_symbols [] literal = Inr c"
      and push: "heappush symbols ((c, - cnt), literal) = Inr symbols1"
      and rest: "push_symbols items pure_symbols [] symbols1 = Inr symbols'"
    by (auto split: sum.splits)
  from c importance_not_UNIT [of pure_symbols literal] have "c \<noteq> UNIT" by auto
  with heappush_set [OF push] Cons.prems(2) have "\<forall>e\<in>set symbols1. fst (fst e) \<noteq> UNIT"
    by auto
  from Cons.IH [OF rest this] show ?case .
qed

lemma ranking_not_UNIT:
  assumes "ranking kb = Inr symbols"
  shows "\<forall>e\<in>set symbols. fst (fst e) \<noteq> UNIT"
proof -
  from scan_kb_Inr [of kb "[]" "[]" "[]"] obtain symbols_ranking pure_symbols
    where scan: "scan_kb kb ([], [], []) = Inr (symbols_ranking, pure_symbols, [])" by blast
  with assms have "push_symbols symbols_ranking pure_symbols [] [] = Inr symbols"
    by (simp add: ranking_def)
  from push_symbols_not_UNIT [OF this] show ?thesis by simp
qed

section \<open>When the call raises\<close>

text \<open>
  Filling the queue raises \<^verbatim>\<open>TypeError\<close> as soon as two symbols of different
  classes are pushed.
\<close>

lemma push_symbols_raises:
  assumes "\<forall>(l, cnt)\<in>set items. \<exists>c. importance pure_symbols unit_clauses l = Inr c"
    and "symbols \<noteq> []" and "\<forall>e\<in>set symbols. fst (fst e) = c0"
    and "\<exists>(l, cnt)\<in>set items. importance pure_symbols unit_clauses l \<noteq> Inr c0"
  shows "push_symbols items pure_symbols unit_clauses symbols = Inl TypeError"
  using assms
proof (induction items arbitrary: symbols)
  case Nil
  then show ?case by simp
next
  case (Cons item items)
  obtain literal cnt where item: "item = (literal, cnt)" by (cases item)
  from Cons.prems(1) item obtain c
    where c: "importance pure_symbols unit_clauses literal = Inr c" by auto
  show ?case
  proof (cases "c = c0")
    case False
    with heappush_mixed [OF Cons.prems(2,3), of "((c, - cnt), literal)"] item c
    show ?thesis by simp
  next
    case True
    from heappush_uniform [OF Cons.prems(3), of "((c, - cnt), literal)"] True
    obtain symbols' where push: "heappush symbols ((c, - cnt), literal) = Inr symbols'"
      and ne: "symbols' \<noteq> []" and cls: "\<forall>e\<in>set symbols'. fst (fst e) = c0"
      by auto
    from Cons.prems(4) item c True
    have "\<exists>(l, cnt)\<in>set items. importance pure_symbols unit_clauses l \<noteq> Inr c0" by auto
    with Cons.IH [OF _ ne cls] Cons.prems(1)
    have "push_symbols items pure_symbols unit_clauses symbols' = Inl TypeError" by simp
    with item c push show ?thesis by simp
  qed
qed

lemma push_symbols_mixed:
  assumes "\<forall>(l, cnt)\<in>set items. \<exists>c. importance pure_symbols unit_clauses l = Inr c"
    and "(l1, cnt1) \<in> set items" and "(l2, cnt2) \<in> set items"
    and "importance pure_symbols unit_clauses l1 \<noteq> importance pure_symbols unit_clauses l2"
  shows "push_symbols items pure_symbols unit_clauses [] = Inl TypeError"
proof (cases items)
  case Nil
  with assms(2) show ?thesis by simp
next
  case (Cons item rest)
  obtain literal cnt where item: "item = (literal, cnt)" by (cases item)
  from assms(1) Cons item obtain c
    where c: "importance pure_symbols unit_clauses literal = Inr c" by auto
  have "\<exists>(l, cnt)\<in>set rest. importance pure_symbols unit_clauses l \<noteq> Inr c"
  proof (cases "importance pure_symbols unit_clauses l1 = Inr c")
    case True
    with assms(4) have "importance pure_symbols unit_clauses l2 \<noteq> Inr c" by simp
    with assms(3) Cons item c show ?thesis by auto
  next
    case False
    with assms(2) Cons item c show ?thesis by auto
  qed
  moreover from assms(1) Cons
  have "\<forall>(l, cnt)\<in>set rest. \<exists>c. importance pure_symbols unit_clauses l = Inr c" by simp
  ultimately have "push_symbols rest pure_symbols unit_clauses [((c, - cnt), literal)]
      = Inl TypeError"
    by (intro push_symbols_raises [where ?c0.0 = c]) simp_all
  with Cons item c show ?thesis by (simp add: heappush_empty)
qed

text \<open>
  So \<^verbatim>\<open>DPLLSatisfiable\<close> raises \<^verbatim>\<open>TypeError\<close> on every knowledge base that has a
  symbol occurring with one sign only and a symbol occurring with both.
\<close>

lemma one_and_both_polarities_raise:
  assumes "c1 \<in> set kb" and "l1 \<in> set c1"
    and "\<forall>c\<in>set kb. \<forall>l\<in>set c. name l = name l1 \<longrightarrow> sign l = sign l1"
    and "c2 \<in> set kb" and "l2 \<in> set c2" and "c3 \<in> set kb" and "l3 \<in> set c3"
    and "name l3 = name l2" and "sign l3 \<noteq> sign l2"
  shows "ranking kb = Inl TypeError \<and> DPLLSatisfiable kb = Inl TypeError"
proof -
  from scan_kb_Inr [of kb "[]" "[]" "[]"] obtain symbols_ranking pure_symbols
    where scan: "scan_kb kb ([], [], []) = Inr (symbols_ranking, pure_symbols, [])" by blast
  have all: "\<forall>(l, cnt)\<in>set symbols_ranking. \<exists>c. importance pure_symbols [] l = Inr c"
  proof (clarify)
    fix l cnt
    assume "(l, cnt) \<in> set symbols_ranking"
    from scanned_known [OF scan this] show "\<exists>c. importance pure_symbols [] l = Inr c"
      by (simp add: importance_Inr)
  qed
  from scanned_occurs [OF scan assms(1,2)] obtain k1 cnt1
    where k1: "(k1, cnt1) \<in> set symbols_ranking" "name k1 = name l1" by blast
  from scanned_occurs [OF scan assms(4,5)] obtain k2 cnt2
    where k2: "(k2, cnt2) \<in> set symbols_ranking" "name k2 = name l2" by blast
  note c1 = scanned_one_polarity [OF scan k1 assms(1-3)]
  note c2 = scanned_both_polarities [OF scan k2 assms(4-9)]
  from c1 c2 have "importance pure_symbols [] k1 \<noteq> importance pure_symbols [] k2"
    by simp
  from push_symbols_mixed [OF all k1(1) k2(1) this]
  have push: "push_symbols symbols_ranking pure_symbols [] [] = Inl TypeError" .
  with scan have "ranking kb = Inl TypeError" by (simp add: ranking_def)
  moreover from scan push have "DPLLSatisfiable kb = Inl TypeError"
    by (simp add: DPLLSatisfiable_def DPLLSatisfiable_store_def)
  ultimately show ?thesis by simp
qed

text \<open>
  When all symbols are queued with the same class, no comparison fails: the queue is
  filled, the search runs on a queue of that class, and the call returns.
\<close>

lemma push_symbols_uniform:
  "\<forall>(l, cnt)\<in>set items. importance pure_symbols unit_clauses l = Inr c
   \<Longrightarrow> \<forall>e\<in>set symbols. fst (fst e) = c
   \<Longrightarrow> \<exists>symbols'. push_symbols items pure_symbols unit_clauses symbols = Inr symbols'
         \<and> (\<forall>e\<in>set symbols'. fst (fst e) = c)"
proof (induction items arbitrary: symbols)
  case Nil
  then show ?case by simp
next
  case (Cons item items)
  obtain literal cnt where item: "item = (literal, cnt)" by (cases item)
  with Cons.prems(1) have c: "importance pure_symbols unit_clauses literal = Inr c" by simp
  from heappush_uniform [OF Cons.prems(2), of "((c, - cnt), literal)"]
  obtain symbols' where push: "heappush symbols ((c, - cnt), literal) = Inr symbols'"
    and cls: "\<forall>e\<in>set symbols'. fst (fst e) = c"
    by auto
  from Cons.prems(1) have "\<forall>(l, cnt)\<in>set items. importance pure_symbols unit_clauses l = Inr c"
    by simp
  from Cons.IH [OF this cls] item c push show ?case by simp
qed

lemma DPLL_run_uniform:
  "DPLL_run clauses symbols model st r \<Longrightarrow> \<forall>e\<in>set symbols. fst (fst e) = c
   \<Longrightarrow> \<exists>b model' symbols'. fst r = Inr (b, model', symbols')
         \<and> (\<forall>e\<in>set symbols'. fst (fst e) = c)"
proof (induction rule: DPLL_run.induct)
  case (returned st clauses model b st1 symbols)
  then show ?case by simp
next
  case (no_symbols st clauses model st1 symbols)
  then show ?case by auto
next
  case (pop_raised st clauses model st1 symbols e)
  from heappop_uniform [OF pop_raised.prems pop_raised.hyps(2)] pop_raised.hyps(3)
  show ?case by simp
next
  case (first_raised st clauses model st1 symbols cnt P symbols1 e st2)
  from heappop_uniform [OF first_raised.prems first_raised.hyps(2)] first_raised.hyps(3)
  have "set symbols1 \<subseteq> set symbols" by simp
  with first_raised.prems first_raised.IH show ?case by auto
next
  case (first_satisfiable st clauses model st1 symbols cnt P symbols1 model2 symbols2 st2)
  from heappop_uniform [OF first_satisfiable.prems first_satisfiable.hyps(2)]
    first_satisfiable.hyps(3)
  have "set symbols1 \<subseteq> set symbols" by simp
  with first_satisfiable.prems first_satisfiable.IH show ?case by auto
next
  case (second_raised st clauses model st1 symbols cnt P symbols1 model2 symbols2 st2 e st3)
  from heappop_uniform [OF second_raised.prems second_raised.hyps(2)] second_raised.hyps(3)
  have "set symbols1 \<subseteq> set symbols" by simp
  with second_raised.prems second_raised.IH(1) have "\<forall>e\<in>set symbols2. fst (fst e) = c"
    by auto
  with second_raised.IH(2) show ?case by simp
next
  case (second_satisfiable st clauses model st1 symbols cnt P symbols1 model2 symbols2 st2
      model3 symbols3 st3)
  from heappop_uniform [OF second_satisfiable.prems second_satisfiable.hyps(2)]
    second_satisfiable.hyps(3)
  have "set symbols1 \<subseteq> set symbols" by simp
  with second_satisfiable.prems second_satisfiable.IH(1)
  have "\<forall>e\<in>set symbols2. fst (fst e) = c" by auto
  with second_satisfiable.IH(2) show ?case by simp
next
  case (push_raised st clauses model st1 symbols cnt P symbols1 model2 symbols2 st2
      model3 symbols3 st3 e)
  from heappop_uniform [OF push_raised.prems push_raised.hyps(2)] push_raised.hyps(3)
  have sub: "set symbols1 \<subseteq> set symbols" and item: "(cnt, P) \<in> set symbols" by simp_all
  from sub push_raised.prems push_raised.IH(1) have "\<forall>e\<in>set symbols2. fst (fst e) = c"
    by auto
  with push_raised.IH(2) have "\<forall>e\<in>set symbols3. fst (fst e) = c" by simp
  moreover from item push_raised.prems have "fst (fst (cnt, P)) = c" by blast
  ultimately show ?case
    using heappush_uniform [of symbols3 c "(cnt, P)"] push_raised.hyps(6) by auto
next
  case (exhausted st clauses model st1 symbols cnt P symbols1 model2 symbols2 st2
      model3 symbols3 st3 symbols4)
  from heappop_uniform [OF exhausted.prems exhausted.hyps(2)] exhausted.hyps(3)
  have sub: "set symbols1 \<subseteq> set symbols" and item: "(cnt, P) \<in> set symbols" by simp_all
  from sub exhausted.prems exhausted.IH(1) have "\<forall>e\<in>set symbols2. fst (fst e) = c" by auto
  with exhausted.IH(2) have "\<forall>e\<in>set symbols3. fst (fst e) = c" by simp
  moreover from item exhausted.prems have "fst (fst (cnt, P)) = c" by blast
  ultimately show ?case
    using heappush_uniform [of symbols3 c "(cnt, P)"] exhausted.hyps(6) by auto
qed

lemma one_importance_returns:
  assumes "scan_kb kb ([], [], []) = Inr (symbols_ranking, pure_symbols, unit_clauses)"
    and "\<forall>(l, cnt)\<in>set symbols_ranking. importance pure_symbols unit_clauses l = Inr c"
  shows "\<exists>satisfiable model. DPLLSatisfiable kb = Inr (satisfiable, model)"
proof -
  from push_symbols_uniform [OF assms(2), of "[]"] obtain symbols
    where push: "push_symbols symbols_ranking pure_symbols unit_clauses [] = Inr symbols"
      and cls: "\<forall>e\<in>set symbols. fst (fst e) = c"
    by auto
  let ?model = "map (\<lambda>(symbol, cnt). (symbol, Free)) symbols_ranking"
  from DPLL_run_uniform [OF DPLL_run_DPLL cls, of 0 ?model "[kb]"]
  obtain b model' symbols' where "fst (DPLL 0 symbols ?model [kb]) = Inr (b, model', symbols')"
    by blast
  with assms(1) push show ?thesis
    by (auto simp: DPLLSatisfiable_def DPLLSatisfiable_store_def split: prod.splits)
qed

lemma all_one_polarity_returns:
  assumes "\<forall>c\<in>set kb. \<forall>l\<in>set c. \<forall>c'\<in>set kb. \<forall>l'\<in>set c'.
             name l' = name l \<longrightarrow> sign l' = sign l"
  shows "\<exists>satisfiable model. DPLLSatisfiable kb = Inr (satisfiable, model)"
proof -
  from scan_kb_Inr [of kb "[]" "[]" "[]"] obtain symbols_ranking pure_symbols
    where scan: "scan_kb kb ([], [], []) = Inr (symbols_ranking, pure_symbols, [])" by blast
  have "\<forall>(k, cnt)\<in>set symbols_ranking. importance pure_symbols [] k = Inr PURE"
  proof (clarify)
    fix k cnt
    assume k: "(k, cnt) \<in> set symbols_ranking"
    from scanned_key_occurs [OF scan k] obtain c l
      where l: "c \<in> set kb" "l \<in> set c" "name l = name k" by blast
    from assms l(1,2) have "\<forall>c'\<in>set kb. \<forall>l'\<in>set c'. name l' = name l \<longrightarrow> sign l' = sign l"
      by blast
    from scanned_one_polarity [OF scan k l(3) [symmetric] l(1,2) this]
    show "importance pure_symbols [] k = Inr PURE" .
  qed
  from one_importance_returns [OF scan this] show ?thesis .
qed

lemma all_both_polarities_returns:
  assumes "\<forall>c\<in>set kb. \<forall>l\<in>set c. \<exists>c'\<in>set kb. \<exists>l'\<in>set c'.
             name l' = name l \<and> sign l' \<noteq> sign l"
  shows "\<exists>satisfiable model. DPLLSatisfiable kb = Inr (satisfiable, model)"
proof -
  from scan_kb_Inr [of kb "[]" "[]" "[]"] obtain symbols_ranking pure_symbols
    where scan: "scan_kb kb ([], [], []) = Inr (symbols_ranking, pure_symbols, [])" by blast
  have "\<forall>(k, cnt)\<in>set symbols_ranking. importance pure_symbols [] k = Inr REST"
  proof (clarify)
    fix k cnt
    assume k: "(k, cnt) \<in> set symbols_ranking"
    from scanned_key_occurs [OF scan k] obtain c l
      where l: "c \<in> set kb" "l \<in> set c" "name l = name k" by blast
    from assms l(1,2) obtain c' l'
      where l': "c' \<in> set kb" "l' \<in> set c'" "name l' = name l" "sign l' \<noteq> sign l" by blast
    from scanned_both_polarities [OF scan k l(3) [symmetric] l(1,2) l']
    show "importance pure_symbols [] k = Inr REST" .
  qed
  from one_importance_returns [OF scan this] show ?thesis .
qed

section \<open>The model of an unsatisfiable answer\<close>

text \<open>
  A call of \<^verbatim>\<open>DPLL\<close> that reports unsatisfiable hands the model back with every
  entry either as it was on entry or reset to \<^verbatim>\<open>"Free"\<close>.
\<close>

lemma DPLL_run_frees:
  "DPLL_run clauses symbols model st r \<Longrightarrow> fst r = Inr (False, model', symbols')
   \<Longrightarrow> dict_get model' k = Some v \<Longrightarrow> v = Free \<or> dict_get model k = Some v"
proof (induction arbitrary: model' symbols' v rule: DPLL_run.induct)
  case (exhausted st clauses model st1 symbols cnt P symbols1 model2 symbols2 st2
      model3 symbols3 st3 symbols4)
  from exhausted.prems have m: "model' = dict_set model3 P Free" by simp
  show ?case
  proof (cases "name P = name k")
    case True
    with exhausted.prems(2) m show ?thesis by (simp add: dict_get_dict_set)
  next
    case False
    with exhausted.prems(2) m have 3: "dict_get model3 k = Some v"
      by (simp add: dict_get_dict_set)
    show ?thesis
    proof (cases "v = Free")
      case True
      then show ?thesis by simp
    next
      case nf: False
      from exhausted.IH(2) [of model3 symbols3 v] 3 nf False
      have "dict_get model2 k = Some v" by (simp add: dict_get_dict_set)
      with exhausted.IH(1) [of model2 symbols2 v] nf False
      show ?thesis by (simp add: dict_get_dict_set)
    qed
  qed
qed simp_all

lemma DPLL_run_distinct:
  "DPLL_run clauses symbols model st r \<Longrightarrow> fst r = Inr (b, model', symbols')
   \<Longrightarrow> distinct (dict_names model) \<Longrightarrow> distinct (dict_names model')"
proof (induction arbitrary: b model' symbols' rule: DPLL_run.induct)
  case (first_satisfiable st clauses model st1 symbols cnt P symbols1 model2 symbols2 st2)
  from first_satisfiable.IH [of True model2 symbols2] first_satisfiable.prems
  show ?case by (simp add: dict_set_distinct)
next
  case (second_satisfiable st clauses model st1 symbols cnt P symbols1 model2 symbols2 st2
      model3 symbols3 st3)
  from second_satisfiable.IH(1) [of False model2 symbols2] second_satisfiable.prems
  have "distinct (dict_names model2)" by (simp add: dict_set_distinct)
  with second_satisfiable.IH(2) [of True model3 symbols3] second_satisfiable.prems
  show ?case by (simp add: dict_set_distinct)
next
  case (exhausted st clauses model st1 symbols cnt P symbols1 model2 symbols2 st2
      model3 symbols3 st3 symbols4)
  from exhausted.IH(1) [of False model2 symbols2] exhausted.prems
  have "distinct (dict_names model2)" by (simp add: dict_set_distinct)
  with exhausted.IH(2) [of False model3 symbols3]
  have "distinct (dict_names model3)" by (simp add: dict_set_distinct)
  with exhausted.prems show ?case by (auto simp: dict_set_distinct)
qed simp_all

lemma count_literals_distinct:
  "count_literals clause (symbols_ranking, pure_symbols) = Inr (symbols_ranking', pure_symbols')
   \<Longrightarrow> distinct (dict_names symbols_ranking)
   \<Longrightarrow> distinct (dict_names symbols_ranking')"
proof (induction clause arbitrary: symbols_ranking pure_symbols)
  case Nil
  then show ?case by simp
next
  case (Cons literal rest)
  from Cons.prems show ?case
    by (auto simp: Let_def split: option.splits if_splits
             dest!: Cons.IH intro: dict_set_distinct)
qed

lemma scan_kb_distinct:
  "scan_kb kb (symbols_ranking, pure_symbols, unit_clauses)
     = Inr (symbols_ranking', pure_symbols', unit_clauses')
   \<Longrightarrow> distinct (dict_names symbols_ranking)
   \<Longrightarrow> distinct (dict_names symbols_ranking')"
proof (induction kb arbitrary: symbols_ranking pure_symbols)
  case Nil
  then show ?case by simp
next
  case (Cons clause rest)
  from Cons.prems show ?case
    by (auto simp: Let_def split: sum.splits dest!: count_literals_distinct Cons.IH)
qed

text \<open>
  C5. When \<^verbatim>\<open>DPLLSatisfiable\<close> returns \<^verbatim>\<open>False\<close>, every entry of the model it
  returns is \<^verbatim>\<open>"Free"\<close>.
\<close>

theorem unsatisfiable_model_all_free:
  assumes "DPLLSatisfiable kb = Inr (False, model)"
  shows "\<forall>entry\<in>set model. snd entry = Free"
proof
  fix entry
  assume entry: "entry \<in> set model"
  obtain k v where kv: "entry = (k, v)" by (cases entry)
  from assms obtain symbols_ranking pure_symbols unit_clauses symbols symbols' st'
    where scan: "scan_kb kb ([], [], []) = Inr (symbols_ranking, pure_symbols, unit_clauses)"
      and run: "DPLL 0 symbols (map (\<lambda>(symbol, cnt). (symbol, Free)) symbols_ranking) [kb]
                  = (Inr (False, model, symbols'), st')"
    by (auto simp: DPLLSatisfiable_def DPLLSatisfiable_store_def
             split: sum.splits prod.splits)
  let ?model0 = "map (\<lambda>(symbol, cnt). (symbol, Free)) symbols_ranking"
  have names: "dict_names ?model0 = dict_names symbols_ranking"
    by (induction symbols_ranking) auto
  from scan_kb_distinct [OF scan] have "distinct (dict_names ?model0)"
    by (simp add: names)
  moreover have dr: "DPLL_run 0 symbols ?model0 [kb] (Inr (False, model, symbols'), st')"
    using DPLL_run_DPLL [of 0 symbols ?model0 "[kb]"] run by simp
  ultimately have "distinct (dict_names model)"
    using DPLL_run_distinct [OF dr, of False model symbols'] by simp
  with entry kv have "dict_get model k = Some v" by (simp add: dict_get_entry)
  with DPLL_run_frees [OF dr, of model symbols' k v]
  have "v = Free \<or> dict_get ?model0 k = Some v" by simp
  moreover have "v = Free" if "dict_get ?model0 k = Some v"
    using dict_get_Some_entry [OF that] by auto
  ultimately show "snd entry = Free" using kv by auto
qed

text \<open>
  The knowledge base \<^verbatim>\<open>[{B}, {-A}, {A}, {A, -B}]\<close>: \<^verbatim>\<open>A\<close> is popped first, both
  of its values falsify a clause, and it is reset to \<^verbatim>\<open>"Free"\<close>.
\<close>

theorem unsatisfiable_model_all_free_witness:
  "DPLLSatisfiable
     [pyset [Literal ''B'' True], pyset [neg (Literal ''A'' True)], pyset [Literal ''A'' True],
      pyset [Literal ''A'' True, neg (Literal ''B'' True)]]
     = Inr (False, [(Literal ''B'' True, Free), (Literal ''A'' False, Free)])
   \<and> map snd [(Literal ''B'' True, Free), (Literal ''A'' False, Free)] = [Free, Free]"
proof -
  have run: "DPLLSatisfiable
     [pyset [Literal ''B'' True], pyset [neg (Literal ''A'' True)], pyset [Literal ''A'' True],
      pyset [Literal ''A'' True, neg (Literal ''B'' True)]]
     = Inr (False, [(Literal ''B'' True, Free), (Literal ''A'' False, Free)])"
    by code_simp
  from unsatisfiable_model_all_free [OF run] run show ?thesis by simp
qed

section \<open>The lists of clauses\<close>

text \<open>
  The loop over the clauses writes to the list at \<open>unsatisfied_clauses\<close> and to no
  other, and allocates nothing.
\<close>

lemma check_clauses_frame:
  "check_clauses cs model u st = (r, st') \<Longrightarrow>
   length st' = length st \<and> (\<forall>a. a \<noteq> u \<longrightarrow> st' ! a = st ! a)"
proof (induction cs arbitrary: st)
  case Nil
  then show ?case by simp
next
  case (Cons clause rest)
  show ?case
  proof (cases "clauseSatisfied clause model")
    case None
    let ?st = "st[u := st ! u @ [clause]]"
    show ?thesis
    proof (cases "?st ! u = []")
      case True
      with None Cons.prems show ?thesis by (auto simp: Let_def)
    next
      case False
      with None Cons.prems have "check_clauses rest model u ?st = (r, st')"
        by (simp add: Let_def)
      from Cons.IH [OF this] show ?thesis by simp
    qed
  next
    case (Some b)
    show ?thesis
    proof (cases "b \<or> st ! u \<noteq> []")
      case False
      with Some Cons.prems show ?thesis by (auto simp: Let_def)
    next
      case True
      show ?thesis
      proof (cases "st ! u = []")
        case True
        with Some Cons.prems show ?thesis by (auto simp: Let_def split: if_splits)
      next
        case False
        with Some Cons.prems show ?thesis
          by (cases b) (auto simp: Let_def dest: Cons.IH)
      qed
    qed
  qed
qed

text \<open>In \<^verbatim>\<open>DPLL\<close> that list is the one just allocated.\<close>

lemma check_clauses_fresh:
  assumes "check_clauses cs model (length st) (st @ [[]]) = (r, st1)"
  shows "length st1 = Suc (length st) \<and> (\<forall>a<length st. st1 ! a = st ! a)"
  using check_clauses_frame [OF assms] by (simp add: nth_append)

text \<open>
  A run of \<^verbatim>\<open>DPLL\<close>, however it ends, leaves every list that existed before the call
  as it was; the store only grows.
\<close>

lemma DPLL_run_frame:
  "DPLL_run clauses symbols model st r \<Longrightarrow>
   length st \<le> length (snd r) \<and> (\<forall>a<length st. snd r ! a = st ! a)"
proof (induction rule: DPLL_run.induct)
  case (returned st clauses model b st1 symbols)
  from check_clauses_fresh [OF returned.hyps] show ?case by simp
next
  case (no_symbols st clauses model st1 symbols)
  from check_clauses_fresh [OF no_symbols.hyps(1)] show ?case by simp
next
  case (pop_raised st clauses model st1 symbols e)
  from check_clauses_fresh [OF pop_raised.hyps(1)] show ?case by simp
next
  case (first_raised st clauses model st1 symbols cnt P symbols1 e st2)
  from check_clauses_fresh [OF first_raised.hyps(1)] first_raised.IH show ?case by simp
next
  case (first_satisfiable st clauses model st1 symbols cnt P symbols1 model2 symbols2 st2)
  from check_clauses_fresh [OF first_satisfiable.hyps(1)] first_satisfiable.IH
  show ?case by simp
next
  case (second_raised st clauses model st1 symbols cnt P symbols1 model2 symbols2 st2 e st3)
  from check_clauses_fresh [OF second_raised.hyps(1)] second_raised.IH show ?case by simp
next
  case (second_satisfiable st clauses model st1 symbols cnt P symbols1 model2 symbols2 st2
      model3 symbols3 st3)
  from check_clauses_fresh [OF second_satisfiable.hyps(1)] second_satisfiable.IH
  show ?case by simp
next
  case (push_raised st clauses model st1 symbols cnt P symbols1 model2 symbols2 st2
      model3 symbols3 st3 e)
  from check_clauses_fresh [OF push_raised.hyps(1)] push_raised.IH show ?case by simp
next
  case (exhausted st clauses model st1 symbols cnt P symbols1 model2 symbols2 st2
      model3 symbols3 st3 symbols4)
  from check_clauses_fresh [OF exhausted.hyps(1)] exhausted.IH show ?case by simp
qed

lemma DPLL_frame:
  "a < length st \<Longrightarrow> snd (DPLL clauses symbols model st) ! a = st ! a"
  using DPLL_run_frame [OF DPLL_run_DPLL, of st clauses symbols model] by simp

lemma DPLLSatisfiable_store_frame:
  assumes "a < length st"
  shows "snd (DPLLSatisfiable_store kb st) ! a = st ! a"
proof -
  have "snd (case DPLL kb symbols model st of
               (Inl e, st') \<Rightarrow> (Inl e, st')
             | (Inr (satisfiable, model', symbols'), st') \<Rightarrow> (Inr (satisfiable, model'), st'))
        = snd (DPLL kb symbols model st)" for symbols model
    by (simp split: prod.splits sum.splits)
  with assms show ?thesis
    by (simp add: DPLLSatisfiable_store_def DPLL_frame split: sum.splits prod.splits)
qed

text \<open>
  C10. \<^verbatim>\<open>DPLLSatisfiable\<close> does not modify the knowledge base it is given: after the
  call, whether it returned or raised, the list object \<open>kb\<close> holds the clauses it held
  before, in the same order. The appends of the search go to the lists that \<^verbatim>\<open>DPLL\<close>
  creates for \<^verbatim>\<open>unsatisfied_clauses\<close>.
\<close>

theorem DPLLSatisfiable_leaves_kb:
  assumes "kb < length st"
  shows "snd (DPLLSatisfiable_store kb st) ! kb = st ! kb"
  using assms by (rule DPLLSatisfiable_store_frame)

text \<open>
  The run on \<^verbatim>\<open>[{B}, {-A}, {A}, {A, -B}]\<close>, which creates three lists of pending
  clauses and appends to each.
\<close>

theorem DPLLSatisfiable_leaves_kb_witness:
  "(0::nat) < length [[pyset [Literal ''B'' True], pyset [neg (Literal ''A'' True)],
                       pyset [Literal ''A'' True],
                       pyset [Literal ''A'' True, neg (Literal ''B'' True)]]]
   \<and> snd (DPLLSatisfiable_store 0
            [[pyset [Literal ''B'' True], pyset [neg (Literal ''A'' True)],
              pyset [Literal ''A'' True],
              pyset [Literal ''A'' True, neg (Literal ''B'' True)]]]) ! 0
       = [pyset [Literal ''B'' True], pyset [neg (Literal ''A'' True)],
          pyset [Literal ''A'' True],
          pyset [Literal ''A'' True, neg (Literal ''B'' True)]]"
  using DPLLSatisfiable_leaves_kb [of 0
      "[[pyset [Literal ''B'' True], pyset [neg (Literal ''A'' True)],
         pyset [Literal ''A'' True],
         pyset [Literal ''A'' True, neg (Literal ''B'' True)]]]"]
  by simp

section \<open>The search on concrete knowledge bases\<close>

text \<open>
  C1. On \<^verbatim>\<open>kb = [{A}, {-A}]\<close> the symbol \<^verbatim>\<open>A\<close> is popped and set to \<^verbatim>\<open>True\<close>;
  the recursive call finds the first clause satisfied while \<^verbatim>\<open>unsatisfied_clauses\<close> is
  still empty and returns \<^verbatim>\<open>True\<close> from inside the loop, before \<^verbatim>\<open>{-A}\<close> is
  looked at. The call returns \<^verbatim>\<open>(True, {A: True})\<close>, where the claim has
  \<^verbatim>\<open>(False, {A: 'Free'})\<close>.
\<close>

theorem contradictory_units_reported_satisfiable:
  "DPLLSatisfiable [pyset [Literal ''A'' True], pyset [neg (Literal ''A'' True)]]
     = Inr (True, [(Literal ''A'' True, TTrue)])"
  by code_simp

text \<open>
  C2. On \<^verbatim>\<open>kb = [{A, B}, {-A}, {-B, -A}]\<close> the call returns \<^verbatim>\<open>True\<close> with the
  model \<^verbatim>\<open>{A: True, B: 'Free'}\<close>: with \<^verbatim>\<open>A\<close> set to \<^verbatim>\<open>True\<close> the first clause
  is satisfied and the loop returns at once. The clause \<^verbatim>\<open>{-A}\<close> of the knowledge
  base is falsified by that model. The knowledge base is satisfiable: \<^verbatim>\<open>A\<close> false
  and \<^verbatim>\<open>B\<close> true satisfy its three clauses.
\<close>

theorem returned_model_falsifies_clause:
  "DPLLSatisfiable
     [pyset [Literal ''A'' True, Literal ''B'' True],
      pyset [neg (Literal ''A'' True)],
      pyset [neg (Literal ''B'' True), neg (Literal ''A'' True)]]
     = Inr (True, [(Literal ''A'' True, TTrue), (Literal ''B'' True, Free)])
   \<and> clauseSatisfied (pyset [neg (Literal ''A'' True)])
        [(Literal ''A'' True, TTrue), (Literal ''B'' True, Free)] = Some False
   \<and> map (\<lambda>clause. clauseSatisfied clause
               [(Literal ''A'' True, TFalse), (Literal ''B'' True, TTrue)])
        [pyset [Literal ''A'' True, Literal ''B'' True],
         pyset [neg (Literal ''A'' True)],
         pyset [neg (Literal ''B'' True), neg (Literal ''A'' True)]]
       = [Some True, Some True, Some True]"
  by code_simp

text \<open>
  The same holds in whatever order the two sets of two literals are iterated: the call
  returns \<^verbatim>\<open>True\<close> and the model it returns falsifies \<^verbatim>\<open>{-A}\<close>.
\<close>

lemma returned_model_falsifies_clause_any_order:
  "\<forall>c1\<in>{[Literal ''A'' True, Literal ''B'' True], [Literal ''B'' True, Literal ''A'' True]}.
   \<forall>c3\<in>{[Literal ''B'' False, Literal ''A'' False], [Literal ''A'' False, Literal ''B'' False]}.
     (case DPLLSatisfiable [c1, [Literal ''A'' False], c3] of
        Inr (satisfiable, model) \<Rightarrow>
          satisfiable \<and> clauseSatisfied [Literal ''A'' False] model = Some False
      | Inl e \<Rightarrow> False)"
  by code_simp

text \<open>
  C3. On \<^verbatim>\<open>kb = [{A}, {B}, {-B}]\<close> the call raises \<^verbatim>\<open>TypeError\<close>: \<^verbatim>\<open>A\<close> is
  queued as PURE, and pushing \<^verbatim>\<open>B\<close> as REST compares the two entries, whose first
  components are different members of \<^verbatim>\<open>QueueImportance\<close>.
\<close>

theorem pure_and_rest_symbols_raise:
  "DPLLSatisfiable
     [pyset [Literal ''A'' True], pyset [Literal ''B'' True], pyset [neg (Literal ''B'' True)]]
     = Inl TypeError"
  by code_simp

text \<open>
  C4. On \<^verbatim>\<open>kb = [{A}, {B}, {-B}]\<close> the first loop finds \<^verbatim>\<open>A\<close> with one polarity
  and \<^verbatim>\<open>B\<close> with both, so \<^verbatim>\<open>A\<close> is PURE and \<^verbatim>\<open>B\<close> is REST; the queue is never
  built, the second \<^verbatim>\<open>heappush\<close> raising \<^verbatim>\<open>TypeError\<close>. No symbol is popped or
  decided.
\<close>

theorem queue_of_pure_and_rest_not_built:
  "scan_kb
     [pyset [Literal ''A'' True], pyset [Literal ''B'' True], pyset [neg (Literal ''B'' True)]]
     ([], [], [])
     = Inr ([(Literal ''A'' True, 1), (Literal ''B'' True, 2)],
            [(Literal ''A'' True, {True}), (Literal ''B'' True, {False, True})],
            [])
   \<and> importance [(Literal ''A'' True, {True}), (Literal ''B'' True, {False, True})] []
        (Literal ''A'' True) = Inr PURE
   \<and> importance [(Literal ''A'' True, {True}), (Literal ''B'' True, {False, True})] []
        (Literal ''B'' True) = Inr REST
   \<and> ranking
        [pyset [Literal ''A'' True], pyset [Literal ''B'' True],
         pyset [neg (Literal ''B'' True)]]
       = Inl TypeError"
  by code_simp

text \<open>
  C6. On the empty knowledge base the loop over the clauses has nothing to visit, so the
  test \<^verbatim>\<open>if not unsatisfied_clauses\<close> inside it never runs; the queue is empty, and the
  call returns the initial \<^verbatim>\<open>satisfiable = False\<close> with the empty model.
\<close>

theorem empty_kb_reported_unsatisfiable:
  "DPLLSatisfiable [] = Inr (False, [])"
  by code_simp

text \<open>
  C7. On \<^verbatim>\<open>kb = [{A}, {-A}]\<close> the symbol \<^verbatim>\<open>A\<close> is not pure and occurs in two
  clauses of length 1, and it is queued as REST: \<^verbatim>\<open>unit_clauses.union(clause)\<close> leaves
  \<^verbatim>\<open>unit_clauses\<close> empty.
\<close>

theorem unit_clause_symbol_queued_as_rest:
  "ranking [pyset [Literal ''A'' True], pyset [neg (Literal ''A'' True)]]
     = Inr [((REST, - 2), Literal ''A'' True)]"
  by code_simp

end
